theory Spec2Isabelle
  imports Complex_Main
begin

section \<open>JavaScript numbers\<close>

text \<open>
  A JavaScript number is modelled as a finite value, as \<open>NaN\<close> or as an infinity. A finite
  value is idealised as a real: the arithmetic on finite values is exact, without the
  rounding and the overflow of doubles, except in \<open>getFreq\<close>, where the magnitude is
  driven by the integer octave and the range of doubles is modelled (see \<open>pow2\<close> and
  \<open>saturate\<close> below). The library produces \<open>NaN\<close> where it multiplies by a table entry
  that does not exist and where it takes the logarithm of a negative number.
  The sign of a zero is not modelled, so the quotient by zero, which in JavaScript is an
  infinity of either sign or \<open>NaN\<close>, is \<open>NaN\<close> here; it never stands for a finite value. The
  theorems below exclude a zero divisor by a hypothesis (a positive tempo, duration, sum
  of weights or sample rate) or do not depend on the value of the division.
\<close>

datatype jsnum = Num real | NaN | PosInf | NegInf

fun jadd :: "jsnum \<Rightarrow> jsnum \<Rightarrow> jsnum" where
  "jadd (Num a) (Num b) = Num (a + b)"
| "jadd NaN _ = NaN"
| "jadd _ NaN = NaN"
| "jadd PosInf NegInf = NaN"
| "jadd NegInf PosInf = NaN"
| "jadd PosInf _ = PosInf"
| "jadd _ PosInf = PosInf"
| "jadd NegInf _ = NegInf"
| "jadd _ NegInf = NegInf"

fun jsub :: "jsnum \<Rightarrow> jsnum \<Rightarrow> jsnum" where
  "jsub (Num a) (Num b) = Num (a - b)"
| "jsub NaN _ = NaN"
| "jsub _ NaN = NaN"
| "jsub PosInf PosInf = NaN"
| "jsub NegInf NegInf = NaN"
| "jsub PosInf _ = PosInf"
| "jsub NegInf _ = NegInf"
| "jsub _ PosInf = NegInf"
| "jsub _ NegInf = PosInf"

fun jmul :: "jsnum \<Rightarrow> jsnum \<Rightarrow> jsnum" where
  "jmul (Num a) (Num b) = Num (a * b)"
| "jmul NaN _ = NaN"
| "jmul _ NaN = NaN"
| "jmul PosInf (Num b) = (if b = 0 then NaN else if 0 < b then PosInf else NegInf)"
| "jmul NegInf (Num b) = (if b = 0 then NaN else if 0 < b then NegInf else PosInf)"
| "jmul (Num a) PosInf = (if a = 0 then NaN else if 0 < a then PosInf else NegInf)"
| "jmul (Num a) NegInf = (if a = 0 then NaN else if 0 < a then NegInf else PosInf)"
| "jmul PosInf PosInf = PosInf"
| "jmul PosInf NegInf = NegInf"
| "jmul NegInf PosInf = NegInf"
| "jmul NegInf NegInf = PosInf"

fun jdiv :: "jsnum \<Rightarrow> jsnum \<Rightarrow> jsnum" where
  "jdiv (Num a) (Num b) = (if b = 0 then NaN else Num (a / b))"
| "jdiv (Num a) PosInf = Num 0"
| "jdiv (Num a) NegInf = Num 0"
| "jdiv PosInf (Num b) = (if b = 0 then NaN else if 0 < b then PosInf else NegInf)"
| "jdiv NegInf (Num b) = (if b = 0 then NaN else if 0 < b then NegInf else PosInf)"
| "jdiv _ _ = NaN"

text \<open>A comparison with \<open>NaN\<close> on either side is false.\<close>

fun jless :: "jsnum \<Rightarrow> jsnum \<Rightarrow> bool" where
  "jless (Num a) (Num b) = (a < b)"
| "jless NaN _ = False"
| "jless _ NaN = False"
| "jless NegInf NegInf = False"
| "jless NegInf _ = True"
| "jless PosInf _ = False"
| "jless (Num a) PosInf = True"
| "jless (Num a) NegInf = False"

text \<open>
  The remainder operator \<open>%\<close> truncates the quotient towards zero, so the result has the
  sign of the dividend. The remainder of a finite value by an infinity is the value; the
  remainder of an infinity, and the remainder by zero, is \<open>NaN\<close>.
\<close>

definition rtrunc :: "real \<Rightarrow> int" where
  "rtrunc r = (if 0 \<le> r then \<lfloor>r\<rfloor> else \<lceil>r\<rceil>)"

fun jrem :: "jsnum \<Rightarrow> jsnum \<Rightarrow> jsnum" where
  "jrem (Num a) (Num b) = (if b = 0 then NaN else Num (a - b * of_int (rtrunc (a / b))))"
| "jrem (Num a) PosInf = Num a"
| "jrem (Num a) NegInf = Num a"
| "jrem _ _ = NaN"

text \<open>
  The range of doubles. \<open>Math.pow(2, n)\<close> for an integer \<open>n\<close> is the exact power from
  \<open>n = -1074\<close>, the smallest positive double, to \<open>n = 1023\<close>; below it underflows to 0 and
  above it is infinite. A product that reaches \<open>2^1024 - 2^970\<close>, half a step above the
  largest double, is infinite. The rounding of a positive result below \<open>2^-1022\<close> to the
  grid of the subnormal doubles is not modelled.
\<close>

definition pow2 :: "int \<Rightarrow> jsnum" where
  "pow2 n = (if n < - 1074 then Num 0 else if 1023 < n then PosInf else Num (2 powi n))"

definition overflow_bound :: real where
  "overflow_bound = 2 ^ 1024 - 2 ^ 970"

definition saturate :: "jsnum \<Rightarrow> jsnum" where
  "saturate x =
     (case x of
        Num v \<Rightarrow>
          if overflow_bound \<le> v then PosInf
          else if v \<le> - overflow_bound then NegInf
          else Num v
      | NaN \<Rightarrow> NaN
      | PosInf \<Rightarrow> PosInf
      | NegInf \<Rightarrow> NegInf)"

section \<open>Errors\<close>

text \<open>
  The exceptions of the model. \<open>UnknownPitchName\<close>, \<open>InvalidDuration\<close> and
  \<open>UnsupportedWaveShape\<close> are the error kinds the specification names; \<open>ReferenceError\<close>
  and \<open>TypeError\<close> are raised by the JavaScript runtime; \<open>HostError\<close> is an exception
  thrown by the audio context of the host.
\<close>

datatype error =
    UnknownPitchName
  | InvalidDuration
  | UnsupportedWaveShape
  | ReferenceError
  | TypeError
  | HostError string

section \<open>Pitch table, notes and rests\<close>

text \<open>
  The frequencies of the notes in octave 8, by name. The decimal literals of the table are
  read as exact reals.
\<close>

definition noteFreqs :: "string \<rightharpoonup> real" where
  "noteFreqs = map_of
    [(''C'', 4186.01),
     (''C#'', 4434.92),
     (''Db'', 4434.92),
     (''D'', 4698.63),
     (''D#'', 4978.03),
     (''Eb'', 4978.03),
     (''E'', 5274.04),
     (''F'', 5587.65),
     (''F#'', 5919.91),
     (''Gb'', 5919.91),
     (''G'', 6271.93),
     (''G#'', 6644.88),
     (''Ab'', 6644.88),
     (''A'', 7040.00),
     (''A#'', 7458.62),
     (''Bb'', 7458.62),
     (''B'', 7902.13)]"

text \<open>
  A timeline entry is a \<open>Note\<close> (name, octave, length) or a \<open>Rest\<close> (length); the length
  is 1 for a whole note, 1/2 for a half note and so on.
\<close>

datatype entry = Note string int real | Rest real

fun entry_length :: "entry \<Rightarrow> real" where
  "entry_length (Note nm oct len) = len"
| "entry_length (Rest len) = len"

fun is_Note :: "entry \<Rightarrow> bool" where
  "is_Note (Note nm oct len) = True"
| "is_Note (Rest len) = False"

text \<open>
  \<open>noteFreqs[this.name]\<close> is \<open>undefined\<close> for a name that is not a key of the table (or is
  a function or object inherited from the prototype), and the product of a number with
  it is \<open>NaN\<close>. No exception is raised.
\<close>

definition table_entry :: "string \<Rightarrow> jsnum" where
  "table_entry nm = (case noteFreqs nm of None \<Rightarrow> NaN | Some f \<Rightarrow> Num f)"

text \<open>
  \<open>Note.getFreq\<close>, for a note with the given name and octave. The octave is an integer
  without bound, so the scale underflows to 0 for an octave below -1066 and the
  frequency is infinite for an octave above 1019.
\<close>

definition getFreq :: "string \<Rightarrow> int \<Rightarrow> error + jsnum" where
  "getFreq nm oct =
     (let octaveScale = pow2 (oct - 8)
      in Inr (saturate (jmul octaveScale (table_entry nm))))"

section \<open>Envelopes\<close>

text \<open>The amplitude scale for linear attack and decay.\<close>

definition attackAndDecay :: "jsnum \<Rightarrow> jsnum \<Rightarrow> jsnum \<Rightarrow> jsnum" where
  "attackAndDecay x attackPoint decayPoint =
     (if jless x attackPoint then jmul (jdiv (Num 1) attackPoint) x
      else if jless x decayPoint then Num 1
      else (let slope = jdiv (Num (- 1)) (jsub (Num 1) decayPoint)
            in jadd (jmul slope (jsub x decayPoint)) (Num 1)))"

text \<open>
  The log-normal envelope of the second version of the library. \<open>Math.log\<close> is \<open>NaN\<close> on
  a negative number and minus infinity at 0; the square of minus infinity is infinity,
  and \<open>e\<close> to the power of minus infinity is 0, so the function is 0 at 0, and for the
  same reason at infinity.
\<close>

definition lognormal :: "jsnum \<Rightarrow> jsnum" where
  "lognormal x =
     (case x of
        NaN \<Rightarrow> NaN
      | NegInf \<Rightarrow> NaN
      | PosInf \<Rightarrow> Num 0
      | Num r \<Rightarrow>
          if r < 0 then NaN
          else if r = 0 then Num 0
          else Num (1 / sqrt (2 * pi) * exp (- 1 / 2 * (ln r)\<^sup>2)))"

section \<open>Wave shapes and instruments\<close>

text \<open>
  The waveform function of an instrument takes the time \<open>t\<close> in seconds, the frequency of
  the note and \<open>tmax\<close>, the length of the note in seconds, and gives the position of the
  wave.
\<close>

type_synonym waveformFunc = "jsnum \<Rightarrow> jsnum \<Rightarrow> jsnum \<Rightarrow> jsnum"

text \<open>
  The commonly-used wave functions \<open>Instrument.WAVES\<close>. In \<open>SQUARE\<close> the comparison of
  \<open>NaN\<close> with 0.5 is false, which selects \<open>-1.0\<close>. The sine of an infinity is \<open>NaN\<close>.
\<close>

definition SQUARE :: "jsnum \<Rightarrow> jsnum" where
  "SQUARE t = (if jless (jrem t (Num 1)) (Num 0.5) then Num 1 else Num (- 1))"

definition TRIANGLE :: "jsnum \<Rightarrow> jsnum" where
  "TRIANGLE t = jsub (jmul (Num 2) (jrem t (Num 1))) (Num 1)"

definition SINE :: "jsnum \<Rightarrow> jsnum" where
  "SINE t = (case jmul (jmul (Num 2) (Num pi)) t of Num x \<Rightarrow> Num (sin x) | _ \<Rightarrow> NaN)"

text \<open>
  \<open>overtones.reduce((a, b) => a+b)\<close> has no initial value: it starts from the first
  element and raises a \<open>TypeError\<close> on the empty array.
\<close>

definition reduce_add :: "real list \<Rightarrow> error + real" where
  "reduce_add overtones =
     (case overtones of [] \<Rightarrow> Inl TypeError | a # rest \<Rightarrow> Inr (foldl (+) a rest))"

text \<open>
  The body of the waveform function that the constructor of \<open>Instrument\<close> passes to
  \<open>RawInstrument\<close>: one pass of the loop over the overtones, and the whole function.
\<close>

definition overtone_step ::
  "real list \<Rightarrow> (jsnum \<Rightarrow> jsnum) \<Rightarrow> jsnum \<Rightarrow> jsnum \<Rightarrow> jsnum \<Rightarrow> jsnum \<Rightarrow> nat \<Rightarrow> jsnum" where
  "overtone_step overtones waveFunc t freq tmax sample i =
     (let overtoneFreq = jmul freq (Num (real (i + 1)));
          wave = waveFunc (jmul overtoneFreq t);
          amplitude = jmul (Num (overtones ! i)) (attackAndDecay (jdiv t tmax) (Num 0.1) (Num 0.5))
      in jadd sample (jmul amplitude wave))"

definition Instrument_waveformFunc ::
  "real list \<Rightarrow> real \<Rightarrow> (jsnum \<Rightarrow> jsnum) \<Rightarrow> waveformFunc" where
  "Instrument_waveformFunc overtones overtoneSum waveFunc t freq tmax =
     (let sample = foldl (overtone_step overtones waveFunc t freq tmax) (Num 0)
                     [0..<length overtones]
      in jdiv sample (Num overtoneSum))"

text \<open>
  The constructor of \<open>Instrument\<close>. When no wave function is given, the default is read
  from \<open>SimpleInstrument.WAVES.SINE\<close>; no \<open>SimpleInstrument\<close> is declared in this version
  of the library, so that read raises a \<open>ReferenceError\<close>.
\<close>

definition Instrument :: "real list \<Rightarrow> (jsnum \<Rightarrow> jsnum) option \<Rightarrow> error + waveformFunc" where
  "Instrument overtones waveFunc =
     (case waveFunc of
        None \<Rightarrow> Inl ReferenceError
      | Some w \<Rightarrow>
          (case reduce_add overtones of
             Inl e \<Rightarrow> Inl e
           | Inr overtoneSum \<Rightarrow> Inr (Instrument_waveformFunc overtones overtoneSum w)))"

text \<open>
  The second version of the library: \<open>SimpleInstrument\<close>, with a sine wave and the
  log-normal envelope, driven by the elapsed time and not by the length of the note.
\<close>

definition simple_step :: "real list \<Rightarrow> jsnum \<Rightarrow> jsnum \<Rightarrow> jsnum \<Rightarrow> nat \<Rightarrow> jsnum" where
  "simple_step overtones t freq sample i =
     (let overtoneFreq = jmul freq (Num (real (i + 1)));
          wave = (case jmul (jmul (jmul (Num 2) (Num pi)) overtoneFreq) t of
                    Num x \<Rightarrow> Num (sin x) | _ \<Rightarrow> NaN);
          amplitude = jmul (Num (overtones ! i)) (lognormal (jmul (Num 50) t))
      in jadd sample (jmul amplitude wave))"

definition SimpleInstrument_waveformFunc :: "real list \<Rightarrow> real \<Rightarrow> jsnum \<Rightarrow> jsnum \<Rightarrow> jsnum" where
  "SimpleInstrument_waveformFunc overtones overtoneSum t freq =
     (let sample = foldl (simple_step overtones t freq) (Num 0) [0..<length overtones]
      in jdiv sample (Num overtoneSum))"

definition SimpleInstrument :: "real list \<Rightarrow> error + (jsnum \<Rightarrow> jsnum \<Rightarrow> jsnum)" where
  "SimpleInstrument overtones =
     (case reduce_add overtones of
        Inl e \<Rightarrow> Inl e
      | Inr overtoneSum \<Rightarrow> Inr (SimpleInstrument_waveformFunc overtones overtoneSum))"

section \<open>The host and the synthesis of one note\<close>

text \<open>
  The audio context belongs to the host. The library reads its sample rate and asks it
  for a buffer; the host answers with a buffer of some number of channels and frames, or
  throws. The host is a parameter of the model.
\<close>

record audioBuffer =
  numberOfChannels :: nat
  frames :: nat

record host =
  sampleRate :: real
  createBuffer :: "nat \<Rightarrow> jsnum \<Rightarrow> jsnum \<Rightarrow> error + audioBuffer"

text \<open>
  \<open>_playFreq\<close>: every channel of the buffer is filled with the waveform sampled at
  \<open>i / sampleRate\<close>, and the buffer is started. The result is the channel data handed to
  the host for playback (the values assigned, before the buffer rounds them to 32 bits),
  or the exception of the host.
\<close>

definition playFreq :: "host \<Rightarrow> waveformFunc \<Rightarrow> jsnum \<Rightarrow> jsnum \<Rightarrow> error + jsnum list list" where
  "playFreq h waveformFunc freq time =
     (case createBuffer h 2 (jmul (Num (sampleRate h)) time) (Num (sampleRate h)) of
        Inl e \<Rightarrow> Inl e
      | Inr buffer \<Rightarrow>
          Inr (map (\<lambda>channel.
                 map (\<lambda>i. waveformFunc (jdiv (Num (real i)) (Num (sampleRate h))) freq time)
                   [0..<frames buffer])
               [0..<numberOfChannels buffer]))"

section \<open>The sequencer\<close>

text \<open>
  \<open>playNote\<close>: a note is rendered and submitted, a rest is not; then the timer is armed
  with \<open>1000 * seconds\<close>. The result is the submitted channel data, if any, with the
  delay given to \<open>setTimeout\<close>; an exception leaves \<open>playNote\<close> before the timer is armed.
\<close>

definition playNote ::
  "host \<Rightarrow> waveformFunc \<Rightarrow> entry \<Rightarrow> real \<Rightarrow> error + (jsnum list list option \<times> jsnum)" where
  "playNote h waveformFunc note bpm =
     (let secondsPerWholeNote = jdiv (Num 60) (Num bpm)
      in case note of
           Note nm oct len \<Rightarrow>
             (let seconds = jmul secondsPerWholeNote (Num len)
              in case getFreq nm oct of
                   Inl e \<Rightarrow> Inl e
                 | Inr freq \<Rightarrow>
                     (case playFreq h waveformFunc freq seconds of
                        Inl e \<Rightarrow> Inl e
                      | Inr played \<Rightarrow> Inr (Some played, jmul (Num 1000) seconds)))
         | Rest len \<Rightarrow>
             (let seconds = jmul secondsPerWholeNote (Num len)
              in Inr (None, jmul (Num 1000) seconds)))"

text \<open>
  What the sequencer does is recorded as a trace of events, each stamped with the time in
  milliseconds on the clock of the schedule: the submission of the audio of an entry,
  the arming of the timer of an entry, and the call of the completion callback.
\<close>

datatype event =
    Submit nat "jsnum list list"
  | SetTimeout nat jsnum
  | Callback

type_synonym trace = "(real \<times> event) list"

text \<open>
  The timer is taken to fire exactly when its delay has elapsed. \<open>setTimeout\<close> treats a
  negative delay, \<open>NaN\<close> and an infinity as 0.
\<close>

fun fires_after :: "jsnum \<Rightarrow> real" where
  "fires_after (Num ms) = max 0 ms"
| "fires_after NaN = 0"
| "fires_after PosInf = 0"
| "fires_after NegInf = 0"

text \<open>
  \<open>nextNote\<close>, the closure of \<open>playNotes\<close> over the index \<open>i\<close>; it is its own timer
  callback. An exception thrown by \<open>playNote\<close> ends the chain: no timer is armed and the
  completion callback is never called. The result is the exception, if any, and the trace.
\<close>

function nextNote ::
  "host \<Rightarrow> waveformFunc \<Rightarrow> entry list \<Rightarrow> real \<Rightarrow> nat \<Rightarrow> real \<Rightarrow> trace \<Rightarrow> error option \<times> trace" where
  "nextNote h waveformFunc notes bpm i now tr =
     (if i < length notes then
        (case playNote h waveformFunc (notes ! i) bpm of
           Inl e \<Rightarrow> (Some e, tr)
         | Inr (submitted, delay) \<Rightarrow>
             nextNote h waveformFunc notes bpm (i + 1) (now + fires_after delay)
               (tr @ (case submitted of None \<Rightarrow> [] | Some played \<Rightarrow> [(now, Submit i played)])
                   @ [(now, SetTimeout i delay)]))
      else (None, tr @ [(now, Callback)]))"
  by pat_completeness auto
termination
  by (relation "measure (\<lambda>(h, waveformFunc, notes, bpm, i, now, tr). length notes - i)") auto

definition playNotes :: "host \<Rightarrow> waveformFunc \<Rightarrow> entry list \<Rightarrow> real \<Rightarrow> error option \<times> trace" where
  "playNotes h waveformFunc notes bpm = nextNote h waveformFunc notes bpm 0 0 []"

section \<open>Reading a trace\<close>

text \<open>
  The projections of a trace that the statements use: the entries started (an entry is
  started when its timer is armed), the audio submissions, the calls of the completion
  callback and the delays given to \<open>setTimeout\<close>, each in the order of the trace.
\<close>

fun starts :: "trace \<Rightarrow> (nat \<times> real) list" where
  "starts [] = []"
| "starts ((t, SetTimeout i d) # tr) = (i, t) # starts tr"
| "starts ((t, Submit i b) # tr) = starts tr"
| "starts ((t, Callback) # tr) = starts tr"

fun submits :: "trace \<Rightarrow> (nat \<times> real) list" where
  "submits [] = []"
| "submits ((t, Submit i b) # tr) = (i, t) # submits tr"
| "submits ((t, SetTimeout i d) # tr) = submits tr"
| "submits ((t, Callback) # tr) = submits tr"

fun callbacks :: "trace \<Rightarrow> real list" where
  "callbacks [] = []"
| "callbacks ((t, Callback) # tr) = t # callbacks tr"
| "callbacks ((t, Submit i b) # tr) = callbacks tr"
| "callbacks ((t, SetTimeout i d) # tr) = callbacks tr"

fun delays :: "trace \<Rightarrow> jsnum list" where
  "delays [] = []"
| "delays ((t, SetTimeout i d) # tr) = d # delays tr"
| "delays ((t, Submit i b) # tr) = delays tr"
| "delays ((t, Callback) # tr) = delays tr"

text \<open>The events that one pass of \<open>nextNote\<close> appends to the trace.\<close>

definition entry_events :: "nat \<Rightarrow> real \<Rightarrow> jsnum list list option \<Rightarrow> jsnum \<Rightarrow> trace" where
  "entry_events i now submitted delay =
     (case submitted of None \<Rightarrow> [] | Some played \<Rightarrow> [(now, Submit i played)])
       @ [(now, SetTimeout i delay)]"

text \<open>The delay that \<open>playNote\<close> gives to \<open>setTimeout\<close> for an entry.\<close>

definition delay_of :: "real \<Rightarrow> entry \<Rightarrow> jsnum" where
  "delay_of bpm e = jmul (Num 1000) (jmul (jdiv (Num 60) (Num bpm)) (Num (entry_length e)))"

text \<open>
  The request for a buffer that \<open>_playFreq\<close> makes for a note of the given length, and
  whether the host grants the request of an entry. A rest asks for nothing.
\<close>

definition buffer_request :: "host \<Rightarrow> real \<Rightarrow> real \<Rightarrow> error + audioBuffer" where
  "buffer_request h bpm len =
     createBuffer h 2 (jmul (Num (sampleRate h)) (jmul (jdiv (Num 60) (Num bpm)) (Num len)))
       (Num (sampleRate h))"

fun granted :: "host \<Rightarrow> real \<Rightarrow> entry \<Rightarrow> bool" where
  "granted h bpm (Rest len) = True"
| "granted h bpm (Note nm oct len) =
     (case buffer_request h bpm len of Inl e \<Rightarrow> False | Inr b \<Rightarrow> True)"

text \<open>The time on the clock of the schedule at which entry \<open>i\<close> is started.\<close>

definition offset :: "entry list \<Rightarrow> real \<Rightarrow> nat \<Rightarrow> real" where
  "offset notes bpm i = sum_list (map (\<lambda>e. fires_after (delay_of bpm e)) (take i notes))"

text \<open>The invariant of \<open>nextNote\<close>: what the trace holds when entry \<open>i\<close> is about to start.\<close>

definition sched_inv :: "entry list \<Rightarrow> real \<Rightarrow> nat \<Rightarrow> real \<Rightarrow> trace \<Rightarrow> bool" where
  "sched_inv notes bpm i now tr \<longleftrightarrow>
     now = offset notes bpm i \<and>
     starts tr = map (\<lambda>k. (k, offset notes bpm k)) [0..<i] \<and>
     submits tr = filter (\<lambda>(k, t). is_Note (notes ! k)) (starts tr) \<and>
     delays tr = map (delay_of bpm) (take i notes) \<and>
     callbacks tr = []"

text \<open>
  A wave function as the constructor of \<open>Instrument\<close> documents it: on the arguments it is
  given for a frequency and a time that are not negative, its value is a number in the
  interval from -1 to 1.
\<close>

definition wave_bounded :: "(jsnum \<Rightarrow> jsnum) \<Rightarrow> bool" where
  "wave_bounded waveFunc \<longleftrightarrow>
     (\<forall>x. 0 \<le> x \<longrightarrow> (\<exists>y. waveFunc (Num x) = Num y \<and> \<bar>y\<bar> \<le> 1))"

section \<open>Two hosts and an instrument\<close>

text \<open>
  A host that grants every request, with as many frames as the whole part of the
  requested length (none for a length that is not positive), and a host that refuses
  a buffer of less than one frame, as the Web Audio interface prescribes.
\<close>

definition lenient_host :: host where
  "lenient_host =
     \<lparr>sampleRate = 44100,
      createBuffer = (\<lambda>channels n rate.
        Inr \<lparr>numberOfChannels = channels,
             frames = (case n of Num r \<Rightarrow> nat \<lfloor>r\<rfloor> | _ \<Rightarrow> 0)\<rparr>)\<rparr>"

definition strict_host :: host where
  "strict_host =
     \<lparr>sampleRate = 44100,
      createBuffer = (\<lambda>channels n rate.
        case n of
          Num r \<Rightarrow> if 1 \<le> r then Inr \<lparr>numberOfChannels = channels, frames = nat \<lfloor>r\<rfloor>\<rparr>
                   else Inl (HostError ''NotSupportedError'')
        | _ \<Rightarrow> Inl (HostError ''NotSupportedError''))\<rparr>"

text \<open>The waveform function of \<open>new Instrument([1, 0, 0, 1/4], Instrument.WAVES.SINE)\<close>.\<close>

definition sine_instrument :: waveformFunc where
  "sine_instrument = Instrument_waveformFunc [1, 0, 0, 1/4] (5/4) SINE"

declare nextNote.simps [simp del]

section \<open>The pitch table\<close>

lemma powi_next: "(2::real) powi (oct - 7) = 2 * 2 powi (oct - 8)"
proof -
  have "oct - 7 = (oct - 8) + 1" by simp
  then have "(2::real) powi (oct - 7) = 2 powi ((oct - 8) + 1)"
    by (rule arg_cong)
  also have "\<dots> = 2 powi (oct - 8) * 2 powi 1"
    by (rule power_int_add) simp
  also have "\<dots> = 2 * 2 powi (oct - 8)"
    by simp
  finally show ?thesis .
qed

lemma noteFreqs_range:
  assumes "noteFreqs nm = Some r"
  shows "2 \<le> r \<and> r \<le> 8000"
proof -
  have "(nm, r) \<in> set
    [(''C'', 4186.01), (''C#'', 4434.92), (''Db'', 4434.92), (''D'', 4698.63),
     (''D#'', 4978.03), (''Eb'', 4978.03), (''E'', 5274.04), (''F'', 5587.65),
     (''F#'', 5919.91), (''Gb'', 5919.91), (''G'', 6271.93), (''G#'', 6644.88),
     (''Ab'', 6644.88), (''A'', 7040.00), (''A#'', 7458.62), (''Bb'', 7458.62),
     (''B'', 7902.13)]"
    using assms unfolding noteFreqs_def by (rule map_of_SomeD)
  moreover have "\<forall>p \<in> set
    [(''C'', 4186.01), (''C#'', 4434.92), (''Db'', 4434.92), (''D'', 4698.63),
     (''D#'', 4978.03), (''Eb'', 4978.03), (''E'', 5274.04), (''F'', 5587.65),
     (''F#'', 5919.91), (''Gb'', 5919.91), (''G'', 6271.93), (''G#'', 6644.88),
     (''Ab'', 6644.88), (''A'', 7040.00), (''A#'', 7458.62), (''Bb'', 7458.62),
     (''B'', 7902.13)]. 2 \<le> (snd p :: real) \<and> snd p \<le> 8000"
    by simp
  ultimately have "2 \<le> snd (nm, r) \<and> snd (nm, r) \<le> 8000" by (rule bspec[rotated])
  then show ?thesis by simp
qed

lemma jmul_NaN_right: "jmul x NaN = NaN"
  by (cases x) simp_all

lemma saturate_NaN: "saturate NaN = NaN"
  by (simp add: saturate_def)

lemma overflow_bound_pos: "0 < overflow_bound"
  by (simp add: overflow_bound_def)

lemma two_powi_le: "n \<le> 1011 \<Longrightarrow> (2::real) powi n \<le> 2 ^ 1011"
proof -
  assume "n \<le> 1011"
  then have "(2::real) powi n \<le> 2 powi 1011"
    by (intro power_int_increasing) simp_all
  also have "(2::real) powi 1011 = 2 ^ 1011"
    by (simp add: power_int_def)
  finally show ?thesis .
qed

lemma product_in_range:
  assumes "noteFreqs nm = Some r" and "oct \<le> 1019"
  shows "0 < 2 powi (oct - 8) * r" and "2 powi (oct - 8) * r < overflow_bound"
proof -
  from noteFreqs_range[OF assms(1)] have r: "2 \<le> r" "r \<le> 8000" by simp_all
  have p: "0 < (2::real) powi (oct - 8)" by (simp add: zero_less_power_int)
  with r show "0 < 2 powi (oct - 8) * r" by simp
  have "(2::real) powi (oct - 8) \<le> 2 ^ 1011"
    using assms(2) by (intro two_powi_le) simp
  then have "2 powi (oct - 8) * r \<le> 2 ^ 1011 * 8000"
    using r p by (intro mult_mono) simp_all
  also have "\<dots> < overflow_bound"
    by (simp add: overflow_bound_def)
  finally show "2 powi (oct - 8) * r < overflow_bound" .
qed

lemma saturate_in_range: "0 < v \<Longrightarrow> v < overflow_bound \<Longrightarrow> saturate (Num v) = Num v"
  using overflow_bound_pos by (simp add: saturate_def)

lemma getFreq_unknown_value: "nm \<notin> dom noteFreqs \<Longrightarrow> getFreq nm oct = Inr NaN"
  by (auto simp: getFreq_def table_entry_def jmul_NaN_right saturate_NaN split: option.splits)

lemma getFreq_low:
  "noteFreqs nm = Some r \<Longrightarrow> oct < - 1066 \<Longrightarrow> getFreq nm oct = Inr (Num 0)"
  using overflow_bound_pos by (simp add: getFreq_def table_entry_def pow2_def saturate_def)

lemma getFreq_mid:
  "noteFreqs nm = Some r \<Longrightarrow> - 1066 \<le> oct \<Longrightarrow> oct \<le> 1031 \<Longrightarrow>
   getFreq nm oct = Inr (saturate (Num (2 powi (oct - 8) * r)))"
  by (simp add: getFreq_def table_entry_def pow2_def)

lemma getFreq_high:
  assumes "noteFreqs nm = Some r" and "1031 < oct"
  shows "getFreq nm oct = Inr PosInf"
proof -
  from noteFreqs_range[OF assms(1)] have "0 < r" by simp
  then show ?thesis
    using assms by (simp add: getFreq_def table_entry_def pow2_def saturate_def)
qed

lemma getFreq_exact:
  assumes "noteFreqs nm = Some r" and "- 1066 \<le> oct" and "oct \<le> 1019"
  shows "getFreq nm oct = Inr (Num (2 powi (oct - 8) * r))"
proof -
  have "getFreq nm oct = Inr (saturate (Num (2 powi (oct - 8) * r)))"
    using assms by (intro getFreq_mid) simp_all
  with product_in_range[OF assms(1,3)] show ?thesis
    by (simp add: saturate_in_range)
qed

lemma saturate_double:
  assumes "0 < v"
  shows "saturate (jmul (Num 2) (saturate (Num v))) = saturate (Num (2 * v))"
proof (cases "overflow_bound \<le> v")
  case True
  with assms have "overflow_bound \<le> 2 * v" by simp
  with True show ?thesis by (simp add: saturate_def)
next
  case False
  with assms overflow_bound_pos show ?thesis by (simp add: saturate_def)
qed

lemma saturate_top:
  assumes "2 \<le> r"
  shows "saturate (Num (2 powi 1023 * r)) = PosInf"
proof -
  have "overflow_bound \<le> 2 ^ 1023 * 2"
    by (simp add: overflow_bound_def)
  also have "\<dots> \<le> 2 ^ 1023 * r"
    using assms by (intro mult_left_mono) simp_all
  finally show ?thesis by (simp add: saturate_def)
qed

lemma Instrument_sine: "Instrument [1, 0, 0, 1/4] (Some SINE) = Inr sine_instrument"
  by (simp add: Instrument_def reduce_add_def sine_instrument_def)

lemma getFreq_known_not_NaN:
  assumes "noteFreqs nm = Some r"
  shows "getFreq nm oct \<noteq> Inr NaN"
proof -
  consider "oct < - 1066" | "- 1066 \<le> oct" "oct \<le> 1031" | "1031 < oct"
    by linarith
  then show ?thesis
  proof cases
    case 1
    with getFreq_low[OF assms] show ?thesis by simp
  next
    case 2
    with getFreq_mid[OF assms] show ?thesis by (simp add: saturate_def)
  next
    case 3
    with getFreq_high[OF assms] show ?thesis by simp
  qed
qed

text \<open>
  C8, as stated, fails. The octave is an integer without bound, and \<open>Math.pow(2, octave - 8)\<close>
  underflows: for the note A the frequency is 0 at octave -1067 and positive at octave
  -1066, which is not twice 0.
\<close>

theorem getFreq_octave_counterexample:
  "getFreq ''A'' (- 1067) = Inr (Num 0) \<and>
   getFreq ''A'' (- 1067 + 1) = Inr (Num (2 powi (- 1074) * 7040)) \<and>
   (2::real) powi (- 1074) * 7040 \<noteq> 2 * 0"
proof -
  have a: "noteFreqs ''A'' = Some 7040"
    by (simp add: noteFreqs_def)
  have 1: "getFreq ''A'' (- 1067) = Inr (Num 0)"
    by (rule getFreq_low[OF a]) simp
  have "getFreq ''A'' (- 1066) = Inr (Num (2 powi (- 1066 - 8) * 7040))"
    by (rule getFreq_exact[OF a]) simp_all
  then have 2: "getFreq ''A'' (- 1067 + 1) = Inr (Num (2 powi (- 1074) * 7040))"
    by simp
  have "0 < (2::real) powi (- 1074)" by (simp add: zero_less_power_int)
  then have 3: "(2::real) powi (- 1074) * 7040 \<noteq> 2 * 0" by simp
  show ?thesis by (intro conjI) (rule 1 2 3)+
qed

text \<open>
  C8, amended. For every recognized pitch name and every integer octave from -1026 on,
  the frequency one octave up is twice the frequency, the product being taken in the
  range of doubles (from octave 1019 on it is infinite, as is the frequency one octave
  up). For an octave from -1026 to 1018 both frequencies are finite: \<open>getFreq\<close> returns a
  positive number \<open>f\<close> at octave \<open>oct\<close> and \<open>2 * f\<close> at octave \<open>oct + 1\<close>. Below octave -1026
  the frequency is a subnormal double, whose rounding is not modelled, or 0.
\<close>

theorem getFreq_octave:
  assumes "nm \<in> dom noteFreqs" and "- 1026 \<le> oct"
  shows "\<exists>x. getFreq nm oct = Inr x \<and>
             getFreq nm (oct + 1) = Inr (saturate (jmul (Num 2) x)) \<and>
             (oct \<le> 1018 \<longrightarrow>
                (\<exists>f. 0 < f \<and> x = Num f \<and> getFreq nm (oct + 1) = Inr (Num (2 * f))))"
proof -
  from assms(1) obtain r where r: "noteFreqs nm = Some r" by auto
  from noteFreqs_range[OF r] have r2: "2 \<le> r" by simp
  define v where "v = 2 powi (oct - 8) * r"
  have vpos: "0 < v"
    using r2 by (simp add: v_def zero_less_power_int)
  have next_v: "2 powi (oct + 1 - 8) * r = 2 * v"
    using powi_next[of oct] by (simp add: v_def)
  consider (finite) "oct \<le> 1018" | (mid) "1018 < oct" "oct \<le> 1030"
    | (top) "oct = 1031" | (high) "1031 < oct"
    by linarith
  then show ?thesis
  proof cases
    case finite
    have x: "getFreq nm oct = Inr (Num v)"
      unfolding v_def using assms(2) finite by (intro getFreq_exact[OF r]) simp_all
    have "getFreq nm (oct + 1) = Inr (Num (2 powi (oct + 1 - 8) * r))"
      using assms(2) finite by (intro getFreq_exact[OF r]) simp_all
    then have y: "getFreq nm (oct + 1) = Inr (Num (2 * v))"
      by (simp only: next_v)
    have "oct + 1 \<le> 1019" using finite by simp
    from product_in_range[OF r this] have "0 < 2 * v" "2 * v < overflow_bound"
      by (simp_all only: next_v)
    then have "saturate (jmul (Num 2) (Num v)) = Num (2 * v)"
      by (simp add: saturate_in_range)
    with x y vpos show ?thesis by auto
  next
    case mid
    have x: "getFreq nm oct = Inr (saturate (Num v))"
      unfolding v_def using mid by (intro getFreq_mid[OF r]) simp_all
    have "getFreq nm (oct + 1) = Inr (saturate (Num (2 powi (oct + 1 - 8) * r)))"
      using mid by (intro getFreq_mid[OF r]) simp_all
    then have "getFreq nm (oct + 1) = Inr (saturate (Num (2 * v)))"
      by (simp only: next_v)
    with x mid saturate_double[OF vpos] show ?thesis by auto
  next
    case top
    have "getFreq nm oct = Inr (saturate (Num (2 powi (oct - 8) * r)))"
      using top by (intro getFreq_mid[OF r]) simp_all
    then have x: "getFreq nm oct = Inr PosInf"
      using top saturate_top[OF r2] by simp
    have y: "getFreq nm (oct + 1) = Inr PosInf"
      using top by (intro getFreq_high[OF r]) simp
    from x y top show ?thesis by (simp add: saturate_def)
  next
    case high
    have x: "getFreq nm oct = Inr PosInf"
      using high by (intro getFreq_high[OF r])
    have y: "getFreq nm (oct + 1) = Inr PosInf"
      using high by (intro getFreq_high[OF r]) simp
    from x y high show ?thesis by (simp add: saturate_def)
  qed
qed

text \<open>C8, amended, at the note A: 440 Hz in octave 4 and 880 Hz in octave 5.\<close>

theorem getFreq_octave_witness:
  "''A'' \<in> dom noteFreqs \<and> (- 1026 :: int) \<le> 4 \<and> (4 :: int) \<le> 1018 \<and>
   getFreq ''A'' 4 = Inr (Num 440) \<and>
   getFreq ''A'' (4 + 1) = Inr (Num (2 * 440))"
proof -
  have d: "''A'' \<in> dom noteFreqs"
    by (simp add: noteFreqs_def dom_map_of_conv_image_fst)
  have a: "noteFreqs ''A'' = Some 7040"
    by (simp add: noteFreqs_def)
  have "getFreq ''A'' 4 = Inr (Num (2 powi (4 - 8) * 7040))"
    by (rule getFreq_exact[OF a]) simp_all
  then have v: "getFreq ''A'' 4 = Inr (Num 440)"
    by (simp add: power_int_def power_divide)
  have lo: "(- 1026 :: int) \<le> 4" and hi: "(4 :: int) \<le> 1018" by simp_all
  from getFreq_octave[OF d lo] v hi have "getFreq ''A'' (4 + 1) = Inr (Num (2 * 440))"
    by auto
  with d v lo hi show ?thesis by (intro conjI)
qed

text \<open>
  C9. The two names of each enharmonic pair (C#/Db, D#/Eb, F#/Gb, G#/Ab, A#/Bb) have
  the same frequency at every integer octave, and that frequency is never \<open>NaN\<close>. From
  octave -1026 to octave 1019 it is the entry of the table scaled by \<open>2\<close> to the power
  \<open>oct - 8\<close>; far below it is 0 and above it is infinite, for both names alike.
\<close>

theorem getFreq_enharmonic:
  "getFreq ''C#'' oct = getFreq ''Db'' oct \<and>
   getFreq ''D#'' oct = getFreq ''Eb'' oct \<and>
   getFreq ''F#'' oct = getFreq ''Gb'' oct \<and>
   getFreq ''G#'' oct = getFreq ''Ab'' oct \<and>
   getFreq ''A#'' oct = getFreq ''Bb'' oct \<and>
   getFreq ''C#'' oct \<noteq> Inr NaN \<and>
   getFreq ''D#'' oct \<noteq> Inr NaN \<and>
   getFreq ''F#'' oct \<noteq> Inr NaN \<and>
   getFreq ''G#'' oct \<noteq> Inr NaN \<and>
   getFreq ''A#'' oct \<noteq> Inr NaN \<and>
   (- 1026 \<le> oct \<and> oct \<le> 1019 \<longrightarrow>
      getFreq ''C#'' oct = Inr (Num (2 powi (oct - 8) * 4434.92)) \<and>
      getFreq ''Db'' oct = Inr (Num (2 powi (oct - 8) * 4434.92)) \<and>
      getFreq ''D#'' oct = Inr (Num (2 powi (oct - 8) * 4978.03)) \<and>
      getFreq ''Eb'' oct = Inr (Num (2 powi (oct - 8) * 4978.03)) \<and>
      getFreq ''F#'' oct = Inr (Num (2 powi (oct - 8) * 5919.91)) \<and>
      getFreq ''Gb'' oct = Inr (Num (2 powi (oct - 8) * 5919.91)) \<and>
      getFreq ''G#'' oct = Inr (Num (2 powi (oct - 8) * 6644.88)) \<and>
      getFreq ''Ab'' oct = Inr (Num (2 powi (oct - 8) * 6644.88)) \<and>
      getFreq ''A#'' oct = Inr (Num (2 powi (oct - 8) * 7458.62)) \<and>
      getFreq ''Bb'' oct = Inr (Num (2 powi (oct - 8) * 7458.62)))"
proof -
  have t: "noteFreqs ''C#'' = Some 4434.92" "noteFreqs ''Db'' = Some 4434.92"
    "noteFreqs ''D#'' = Some 4978.03" "noteFreqs ''Eb'' = Some 4978.03"
    "noteFreqs ''F#'' = Some 5919.91" "noteFreqs ''Gb'' = Some 5919.91"
    "noteFreqs ''G#'' = Some 6644.88" "noteFreqs ''Ab'' = Some 6644.88"
    "noteFreqs ''A#'' = Some 7458.62" "noteFreqs ''Bb'' = Some 7458.62"
    by (simp_all add: noteFreqs_def)
  have e: "getFreq ''C#'' oct = getFreq ''Db'' oct" "getFreq ''D#'' oct = getFreq ''Eb'' oct"
    "getFreq ''F#'' oct = getFreq ''Gb'' oct" "getFreq ''G#'' oct = getFreq ''Ab'' oct"
    "getFreq ''A#'' oct = getFreq ''Bb'' oct"
    by (simp_all only: getFreq_def table_entry_def t)
  have n: "getFreq ''C#'' oct \<noteq> Inr NaN" "getFreq ''D#'' oct \<noteq> Inr NaN"
    "getFreq ''F#'' oct \<noteq> Inr NaN" "getFreq ''G#'' oct \<noteq> Inr NaN"
    "getFreq ''A#'' oct \<noteq> Inr NaN"
    by (rule getFreq_known_not_NaN, rule t)+
  have v: "getFreq ''C#'' oct = Inr (Num (2 powi (oct - 8) * 4434.92)) \<and>
      getFreq ''Db'' oct = Inr (Num (2 powi (oct - 8) * 4434.92)) \<and>
      getFreq ''D#'' oct = Inr (Num (2 powi (oct - 8) * 4978.03)) \<and>
      getFreq ''Eb'' oct = Inr (Num (2 powi (oct - 8) * 4978.03)) \<and>
      getFreq ''F#'' oct = Inr (Num (2 powi (oct - 8) * 5919.91)) \<and>
      getFreq ''Gb'' oct = Inr (Num (2 powi (oct - 8) * 5919.91)) \<and>
      getFreq ''G#'' oct = Inr (Num (2 powi (oct - 8) * 6644.88)) \<and>
      getFreq ''Ab'' oct = Inr (Num (2 powi (oct - 8) * 6644.88)) \<and>
      getFreq ''A#'' oct = Inr (Num (2 powi (oct - 8) * 7458.62)) \<and>
      getFreq ''Bb'' oct = Inr (Num (2 powi (oct - 8) * 7458.62))"
    if "- 1026 \<le> oct" "oct \<le> 1019"
  proof -
    from that have lo: "- 1066 \<le> oct" by simp
    show ?thesis
      by (intro conjI) (rule getFreq_exact[OF _ lo that(2)], rule t)+
  qed
  have v': "- 1026 \<le> oct \<and> oct \<le> 1019 \<longrightarrow>
      getFreq ''C#'' oct = Inr (Num (2 powi (oct - 8) * 4434.92)) \<and>
      getFreq ''Db'' oct = Inr (Num (2 powi (oct - 8) * 4434.92)) \<and>
      getFreq ''D#'' oct = Inr (Num (2 powi (oct - 8) * 4978.03)) \<and>
      getFreq ''Eb'' oct = Inr (Num (2 powi (oct - 8) * 4978.03)) \<and>
      getFreq ''F#'' oct = Inr (Num (2 powi (oct - 8) * 5919.91)) \<and>
      getFreq ''Gb'' oct = Inr (Num (2 powi (oct - 8) * 5919.91)) \<and>
      getFreq ''G#'' oct = Inr (Num (2 powi (oct - 8) * 6644.88)) \<and>
      getFreq ''Ab'' oct = Inr (Num (2 powi (oct - 8) * 6644.88)) \<and>
      getFreq ''A#'' oct = Inr (Num (2 powi (oct - 8) * 7458.62)) \<and>
      getFreq ''Bb'' oct = Inr (Num (2 powi (oct - 8) * 7458.62))"
    by (intro impI, elim conjE, rule v)
  show ?thesis
    by (intro conjI) (rule e n v')+
qed

text \<open>C9 at the pair C#/Db in octave 4.\<close>

theorem getFreq_enharmonic_witness:
  "(- 1026 :: int) \<le> 4 \<and> (4 :: int) \<le> 1019 \<and>
   getFreq ''C#'' 4 = Inr (Num (2 powi (4 - 8) * 4434.92)) \<and>
   getFreq ''Db'' 4 = Inr (Num (2 powi (4 - 8) * 4434.92)) \<and>
   getFreq ''C#'' 4 = getFreq ''Db'' 4"
proof -
  have lo: "(- 1026 :: int) \<le> 4" and hi: "(4 :: int) \<le> 1019" by simp_all
  from getFreq_enharmonic[of 4] lo hi
  have "getFreq ''C#'' 4 = Inr (Num (2 powi (4 - 8) * 4434.92))"
    and "getFreq ''Db'' 4 = Inr (Num (2 powi (4 - 8) * 4434.92))"
    and "getFreq ''C#'' 4 = getFreq ''Db'' 4"
    by blast+
  with lo hi show ?thesis by (intro conjI)
qed

section \<open>The envelopes\<close>

lemma attackAndDecay_default:
  "attackAndDecay (Num x) (Num 0.1) (Num 0.5) =
     Num (if x < 0.1 then 10 * x else if x < 0.5 then 1 else 2 - 2 * x)"
  by (simp add: attackAndDecay_def)

lemma attackAndDecay_range:
  assumes "0 \<le> x" and "x \<le> 1"
  shows "\<exists>e. attackAndDecay (Num x) (Num 0.1) (Num 0.5) = Num e \<and> 0 \<le> e \<and> e \<le> 1"
  using assms by (simp add: attackAndDecay_def)

text \<open>
  C4. With attack point 0.1 and decay point 0.5, the envelope is 0 at 0, 1 at the attack
  point, 1 at the decay point and 0 at 1; it does not decrease on the interval from 0 to
  the attack point and does not increase on the interval from the decay point to 1.
\<close>

theorem attackAndDecay_shape:
  "attackAndDecay (Num 0) (Num 0.1) (Num 0.5) = Num 0 \<and>
   attackAndDecay (Num 0.1) (Num 0.1) (Num 0.5) = Num 1 \<and>
   attackAndDecay (Num 0.5) (Num 0.1) (Num 0.5) = Num 1 \<and>
   attackAndDecay (Num 1) (Num 0.1) (Num 0.5) = Num 0 \<and>
   (\<forall>x y. 0 \<le> x \<and> x \<le> y \<and> y \<le> 0.1 \<longrightarrow>
      (\<exists>a b. attackAndDecay (Num x) (Num 0.1) (Num 0.5) = Num a \<and>
             attackAndDecay (Num y) (Num 0.1) (Num 0.5) = Num b \<and> a \<le> b)) \<and>
   (\<forall>x y. 0.5 \<le> x \<and> x \<le> y \<and> y \<le> 1 \<longrightarrow>
      (\<exists>a b. attackAndDecay (Num x) (Num 0.1) (Num 0.5) = Num a \<and>
             attackAndDecay (Num y) (Num 0.1) (Num 0.5) = Num b \<and> b \<le> a))"
  unfolding attackAndDecay_default by simp

text \<open>C4 at two points of the attack and two points of the decay.\<close>

theorem attackAndDecay_shape_witness:
  "(0::real) \<le> 0.02 \<and> (0.02::real) \<le> 0.05 \<and> (0.05::real) \<le> 0.1 \<and>
   attackAndDecay (Num 0.02) (Num 0.1) (Num 0.5) = Num 0.2 \<and>
   attackAndDecay (Num 0.05) (Num 0.1) (Num 0.5) = Num 0.5 \<and>
   (0.5::real) \<le> 0.6 \<and> (0.6::real) \<le> 0.75 \<and> (0.75::real) \<le> 1 \<and>
   attackAndDecay (Num 0.6) (Num 0.1) (Num 0.5) = Num 0.8 \<and>
   attackAndDecay (Num 0.75) (Num 0.1) (Num 0.5) = Num 0.5"
  using attackAndDecay_shape unfolding attackAndDecay_default by simp

lemma inv_sqrt_2pi_pos: "0 < 1 / sqrt (2 * pi)"
  by simp

lemma inv_sqrt_2pi_less_1: "1 / sqrt (2 * pi) < 1"
proof -
  have "1 < 2 * pi" using pi_ge_two by simp
  then have "1 < sqrt (2 * pi)" by simp
  then show ?thesis by simp
qed

lemma lognormal_pos_arg:
  "0 < x \<Longrightarrow> lognormal (Num x) = Num (1 / sqrt (2 * pi) * exp (- 1 / 2 * (ln x)\<^sup>2))"
  by (simp add: lognormal_def)

lemma lognormal_range:
  assumes "0 \<le> x"
  shows "\<exists>y. lognormal (Num x) = Num y \<and> 0 \<le> y \<and> y \<le> 1 / sqrt (2 * pi) \<and>
             (y = 1 / sqrt (2 * pi) \<longleftrightarrow> x = 1)"
proof (cases "x = 0")
  case True
  then show ?thesis by (simp add: lognormal_def)
next
  case False
  with assms have pos: "0 < x" by simp
  define y where "y = 1 / sqrt (2 * pi) * exp (- 1 / 2 * (ln x)\<^sup>2)"
  have l: "lognormal (Num x) = Num y"
    using pos by (simp add: lognormal_pos_arg y_def)
  have ex: "exp (- 1 / 2 * (ln x)\<^sup>2) \<le> 1" by simp
  have 0: "0 \<le> y" by (simp add: y_def)
  have 1: "y \<le> 1 / sqrt (2 * pi)"
  proof -
    have "1 / sqrt (2 * pi) * exp (- 1 / 2 * (ln x)\<^sup>2) \<le> 1 / sqrt (2 * pi) * 1"
      using ex by (intro mult_left_mono) simp_all
    then show ?thesis by (simp add: y_def)
  qed
  have 2: "y = 1 / sqrt (2 * pi) \<longleftrightarrow> x = 1"
  proof -
    have "y = 1 / sqrt (2 * pi) \<longleftrightarrow> exp (- 1 / 2 * (ln x)\<^sup>2) = 1"
      by (simp add: y_def)
    also have "\<dots> \<longleftrightarrow> - 1 / 2 * (ln x)\<^sup>2 = 0"
      by (rule exp_eq_one_iff)
    also have "\<dots> \<longleftrightarrow> ln x = 0" by simp
    also have "\<dots> \<longleftrightarrow> x = 1" using pos by simp
    finally show ?thesis .
  qed
  from l 0 1 2 show ?thesis by blast
qed

lemma sin_quarter: "sin (2 * pi * (1 / 4)) = (1::real)"
  by simp
lemma sin_half: "sin (2 * pi * (1/2)) = (0::real)"
  by simp
lemma sin_three_quarters: "sin (2 * pi * (3 / 4)) = (- 1::real)"
proof -
  have "2 * pi * (3 / 4) = 3 / 2 * pi" by simp
  then show ?thesis by (simp only: sin_3over2_pi)
qed

lemma SINE_quarter: "SINE (Num (1/4)) = Num 1"
  using sin_quarter by (simp add: SINE_def)
lemma SINE_half: "SINE (Num (1/2)) = Num 0"
  using sin_half by (simp add: SINE_def)
lemma SINE_three_quarters: "SINE (Num (3/4)) = Num (- 1)"
  using sin_three_quarters by (simp add: SINE_def)

section \<open>The waveform of an instrument\<close>

lemma rtrunc_nonneg: "0 \<le> x \<Longrightarrow> x - of_int (rtrunc x) = frac x"
  by (simp add: rtrunc_def frac_def)

lemma SQUARE_bounded: "wave_bounded SQUARE"
  by (simp add: wave_bounded_def SQUARE_def)

lemma TRIANGLE_bounded: "wave_bounded TRIANGLE"
proof -
  have "\<exists>y. TRIANGLE (Num x) = Num y \<and> \<bar>y\<bar> \<le> 1" if "0 \<le> x" for x
  proof -
    have "TRIANGLE (Num x) = Num (2 * frac x - 1)"
      using that by (simp add: TRIANGLE_def rtrunc_nonneg)
    moreover have "0 \<le> frac x" "frac x < 1"
      by (simp_all add: frac_lt_1)
    ultimately show ?thesis by (simp add: abs_le_iff)
  qed
  then show ?thesis by (simp add: wave_bounded_def)
qed

lemma SINE_bounded: "wave_bounded SINE"
  by (simp add: wave_bounded_def SINE_def)

lemma foldl_add: "foldl (+) (a::real) xs = a + sum_list xs"
  by (induction xs arbitrary: a) simp_all

lemma reduce_add_sum: "overtones \<noteq> [] \<Longrightarrow> reduce_add overtones = Inr (sum_list overtones)"
  by (cases overtones) (simp_all add: reduce_add_def foldl_add)

lemma foldl_weighted_bound:
  assumes "\<And>a i. i \<in> set js \<Longrightarrow> \<exists>c. step (Num a) i = Num (a + c) \<and> \<bar>c\<bar> \<le> w i"
  shows "\<exists>s. foldl step (Num a) js = Num s \<and> \<bar>s - a\<bar> \<le> sum_list (map w js)"
  using assms
proof (induction js arbitrary: a)
  case Nil
  then show ?case by simp
next
  case (Cons j js)
  from Cons.prems[of j a] obtain c where c: "step (Num a) j = Num (a + c)" "\<bar>c\<bar> \<le> w j"
    by auto
  have "\<exists>s. foldl step (Num (a + c)) js = Num s \<and> \<bar>s - (a + c)\<bar> \<le> sum_list (map w js)"
    by (rule Cons.IH) (simp add: Cons.prems)
  then obtain s where s: "foldl step (Num (a + c)) js = Num s" "\<bar>s - (a + c)\<bar> \<le> sum_list (map w js)"
    by auto
  have "\<bar>s - a\<bar> \<le> \<bar>s - (a + c)\<bar> + \<bar>c\<bar>" by simp
  with c s show ?case by simp
qed

lemma sum_list_nth_weights:
  "sum_list (map (\<lambda>i. (xs ! i) * (e::real)) [0..<length xs]) = sum_list xs * e"
proof -
  have "map (\<lambda>i. (xs ! i) * e) [0..<length xs] = map (\<lambda>x. x * e) (map ((!) xs) [0..<length xs])"
    by simp
  also have "\<dots> = map (\<lambda>x. x * e) xs" by (simp only: map_nth)
  finally show ?thesis by (simp add: sum_list_mult_const)
qed

lemma overtone_step_Num:
  assumes "wave_bounded waveFunc" and "0 \<le> freq" and "0 \<le> t"
    and "attackAndDecay (jdiv (Num t) (Num tmax)) (Num 0.1) (Num 0.5) = Num e" and "0 \<le> e" "e \<le> 1"
    and "0 \<le> overtones ! i"
  shows "\<exists>c. overtone_step overtones waveFunc (Num t) (Num freq) (Num tmax) (Num a) i = Num (a + c) \<and>
             \<bar>c\<bar> \<le> (overtones ! i) * e"
proof -
  have "0 \<le> freq * real (i + 1) * t" using assms(2,3) by simp
  with assms(1) obtain y where y: "waveFunc (Num (freq * real (i + 1) * t)) = Num y" "\<bar>y\<bar> \<le> 1"
    unfolding wave_bounded_def by blast
  have "overtone_step overtones waveFunc (Num t) (Num freq) (Num tmax) (Num a) i
        = Num (a + (overtones ! i) * e * y)"
    using y(1) assms(4) by (simp add: overtone_step_def Let_def)
  moreover have "\<bar>(overtones ! i) * e * y\<bar> \<le> (overtones ! i) * e"
  proof -
    have "\<bar>(overtones ! i) * e * y\<bar> = (overtones ! i) * e * \<bar>y\<bar>"
      using assms(5,7) by (simp add: abs_mult)
    also have "\<dots> \<le> (overtones ! i) * e * 1"
      using assms(5,7) y(2) by (intro mult_left_mono) simp_all
    finally show ?thesis by simp
  qed
  ultimately show ?thesis by blast
qed

lemma Instrument_waveformFunc_bounded:
  assumes "\<forall>a \<in> set overtones. 0 \<le> a" and "0 < sum_list overtones"
    and "wave_bounded waveFunc" and "0 \<le> freq" and "0 < tmax" and "0 \<le> t" and "t \<le> tmax"
  shows "\<exists>s. Instrument_waveformFunc overtones (sum_list overtones) waveFunc (Num t) (Num freq) (Num tmax) = Num s \<and>
             - 1 \<le> s \<and> s \<le> 1"
proof -
  have x: "0 \<le> t / tmax" "t / tmax \<le> 1" using assms(5,6,7) by simp_all
  from attackAndDecay_range[OF x] obtain e where
    e: "attackAndDecay (Num (t / tmax)) (Num 0.1) (Num 0.5) = Num e" "0 \<le> e" "e \<le> 1"
    by blast
  have e': "attackAndDecay (jdiv (Num t) (Num tmax)) (Num 0.1) (Num 0.5) = Num e"
    using e(1) assms(5) by simp
  have "\<exists>s. foldl (overtone_step overtones waveFunc (Num t) (Num freq) (Num tmax)) (Num 0) [0..<length overtones] = Num s \<and>
          \<bar>s - 0\<bar> \<le> sum_list (map (\<lambda>i. (overtones ! i) * e) [0..<length overtones])"
  proof (rule foldl_weighted_bound)
    fix a i assume "i \<in> set [0..<length overtones]"
    then have "0 \<le> overtones ! i" using assms(1) by simp
    then show "\<exists>c. overtone_step overtones waveFunc (Num t) (Num freq) (Num tmax) (Num a) i = Num (a + c) \<and>
             \<bar>c\<bar> \<le> (overtones ! i) * e"
      by (rule overtone_step_Num[OF assms(3,4,6) e' e(2,3)])
  qed
  then obtain s where s: "foldl (overtone_step overtones waveFunc (Num t) (Num freq) (Num tmax)) (Num 0) [0..<length overtones] = Num s"
    and b: "\<bar>s\<bar> \<le> sum_list overtones * e"
    by (auto simp: sum_list_nth_weights)
  have "sum_list overtones * e \<le> sum_list overtones * 1"
    using assms(2) e(3) by (intro mult_left_mono) simp_all
  with b have b': "\<bar>s\<bar> \<le> sum_list overtones" by simp
  have "Instrument_waveformFunc overtones (sum_list overtones) waveFunc (Num t) (Num freq) (Num tmax)
        = Num (s / sum_list overtones)"
    using s assms(2) by (simp add: Instrument_waveformFunc_def)
  moreover have "- 1 \<le> s / sum_list overtones" "s / sum_list overtones \<le> 1"
    using b' assms(2) by (simp_all add: pos_divide_le_eq pos_le_divide_eq)
  ultimately show ?thesis by simp
qed

lemma simple_step_Num:
  assumes "lognormal (Num (50 * t)) = Num l" and "0 \<le> l" and "0 \<le> overtones ! i"
  shows "\<exists>c. simple_step overtones (Num t) (Num freq) (Num a) i = Num (a + c) \<and>
             \<bar>c\<bar> \<le> (overtones ! i) * l"
proof -
  define y where "y = sin (2 * pi * (freq * real (i + 1)) * t)"
  have y: "\<bar>y\<bar> \<le> 1" by (simp add: y_def)
  have "simple_step overtones (Num t) (Num freq) (Num a) i = Num (a + (overtones ! i) * l * y)"
    using assms(1) by (simp add: simple_step_def Let_def y_def)
  moreover have "\<bar>(overtones ! i) * l * y\<bar> \<le> (overtones ! i) * l"
  proof -
    have "\<bar>(overtones ! i) * l * y\<bar> = (overtones ! i) * l * \<bar>y\<bar>"
      using assms(2,3) by (simp add: abs_mult)
    also have "\<dots> \<le> (overtones ! i) * l * 1"
      using assms(2,3) y by (intro mult_left_mono) simp_all
    finally show ?thesis by simp
  qed
  ultimately show ?thesis by blast
qed

lemma SimpleInstrument_waveformFunc_bounded:
  assumes "\<forall>a \<in> set overtones. 0 \<le> a" and "0 < sum_list overtones" and "0 \<le> t"
  shows "\<exists>s. SimpleInstrument_waveformFunc overtones (sum_list overtones) (Num t) (Num freq) = Num s \<and>
             \<bar>s\<bar> \<le> 1 / sqrt (2 * pi)"
proof -
  have "0 \<le> 50 * t" using assms(3) by simp
  from lognormal_range[OF this] obtain l where
    l: "lognormal (Num (50 * t)) = Num l" "0 \<le> l" "l \<le> 1 / sqrt (2 * pi)"
    by blast
  have "\<exists>s. foldl (simple_step overtones (Num t) (Num freq)) (Num 0) [0..<length overtones] = Num s \<and>
          \<bar>s - 0\<bar> \<le> sum_list (map (\<lambda>i. (overtones ! i) * l) [0..<length overtones])"
  proof (rule foldl_weighted_bound)
    fix a i assume "i \<in> set [0..<length overtones]"
    then have "0 \<le> overtones ! i" using assms(1) by simp
    then show "\<exists>c. simple_step overtones (Num t) (Num freq) (Num a) i = Num (a + c) \<and>
             \<bar>c\<bar> \<le> (overtones ! i) * l"
      by (rule simple_step_Num[OF l(1,2)])
  qed
  then obtain s where s: "foldl (simple_step overtones (Num t) (Num freq)) (Num 0) [0..<length overtones] = Num s"
    and b: "\<bar>s\<bar> \<le> sum_list overtones * l"
    by (auto simp: sum_list_nth_weights)
  have "sum_list overtones * l \<le> sum_list overtones * (1 / sqrt (2 * pi))"
    using assms(2) l(3) by (intro mult_left_mono) simp_all
  with b have b': "\<bar>s\<bar> \<le> sum_list overtones * (1 / sqrt (2 * pi))" by linarith
  have "SimpleInstrument_waveformFunc overtones (sum_list overtones) (Num t) (Num freq)
        = Num (s / sum_list overtones)"
    using s assms(2) by (simp add: SimpleInstrument_waveformFunc_def)
  moreover have "\<bar>s / sum_list overtones\<bar> \<le> 1 / sqrt (2 * pi)"
  proof -
    have "\<bar>s / sum_list overtones\<bar> = \<bar>s\<bar> / sum_list overtones"
      using assms(2) by simp
    also have "\<dots> \<le> (sum_list overtones * (1 / sqrt (2 * pi))) / sum_list overtones"
      using b' assms(2) by (intro divide_right_mono) simp_all
    also have "\<dots> = 1 / sqrt (2 * pi)" using assms(2) by simp
    finally show ?thesis .
  qed
  ultimately show ?thesis by blast
qed




lemma nonempty_of_pos_sum: "0 < sum_list (overtones :: real list) \<Longrightarrow> overtones \<noteq> []"
  by auto

text \<open>
  C1, as stated, fails. The weights 2, 0 and -1 have the positive sum 1. With the sine
  wave, at frequency 1, a quarter of the way through a note of one second, the first
  overtone is at its crest and the third in its trough, the envelope is 1, and the sample
  is (2 * 1 + 0 + (-1) * (-1)) / 1 = 3, outside the interval from -1 to 1. With the
  square wave the same happens on the note A of octave 4 (440 Hz) played for one second,
  at the sample of index 4435 of a buffer of 44100 frames per second.
\<close>

theorem sample_bounded_counterexample:
  "reduce_add [2, 0, - 1] = Inr 1 \<and>
   Instrument [2, 0, - 1] (Some SINE) = Inr (Instrument_waveformFunc [2, 0, - 1] 1 SINE) \<and>
   Instrument_waveformFunc [2, 0, - 1] 1 SINE (Num (1/4)) (Num 1) (Num 1) = Num 3 \<and>
   Instrument [2, 0, - 1] (Some SQUARE) = Inr (Instrument_waveformFunc [2, 0, - 1] 1 SQUARE) \<and>
   getFreq ''A'' 4 = Inr (Num 440) \<and>
   jdiv (Num (real 4435)) (Num 44100) = Num (4435 / 44100) \<and>
   Instrument_waveformFunc [2, 0, - 1] 1 SQUARE (Num (4435 / 44100)) (Num 440) (Num 1) = Num 3 \<and>
   \<not> (3::real) \<le> 1"
proof -
  have r: "reduce_add [2, 0, - 1] = Inr 1"
    by (simp add: reduce_add_def)
  have i: "Instrument [2, 0, - 1] (Some SINE) = Inr (Instrument_waveformFunc [2, 0, - 1] 1 SINE)"
    "Instrument [2, 0, - 1] (Some SQUARE) = Inr (Instrument_waveformFunc [2, 0, - 1] 1 SQUARE)"
    by (simp_all add: Instrument_def r)
  have u: "[0..<length [2, 0, - 1 :: real]] = [0, 1, 2]"
    by (simp add: upt_rec)
  have s0: "overtone_step [2, 0, - 1] SINE (Num (1/4)) (Num 1) (Num 1) (Num 0) 0 = Num 2"
    using SINE_quarter by (simp add: overtone_step_def attackAndDecay_def)
  have s1: "overtone_step [2, 0, - 1] SINE (Num (1/4)) (Num 1) (Num 1) (Num 2) 1 = Num 2"
    using SINE_half by (simp add: overtone_step_def attackAndDecay_def)
  have s2: "overtone_step [2, 0, - 1] SINE (Num (1/4)) (Num 1) (Num 1) (Num 2) 2 = Num 3"
    using SINE_three_quarters by (simp add: overtone_step_def attackAndDecay_def)
  have sine: "Instrument_waveformFunc [2, 0, - 1] 1 SINE (Num (1/4)) (Num 1) (Num 1) = Num 3"
    unfolding Instrument_waveformFunc_def u Let_def foldl_Cons foldl_Nil s0 s1 s2 by simp
  have q0: "overtone_step [2, 0, - 1] SQUARE (Num (4435 / 44100)) (Num 440) (Num 1) (Num 0) 0 = Num 2"
    by (simp add: overtone_step_def attackAndDecay_def SQUARE_def rtrunc_def)
  have q1: "overtone_step [2, 0, - 1] SQUARE (Num (4435 / 44100)) (Num 440) (Num 1) (Num 2) 1 = Num 2"
    by (simp add: overtone_step_def attackAndDecay_def SQUARE_def rtrunc_def)
  have q2: "overtone_step [2, 0, - 1] SQUARE (Num (4435 / 44100)) (Num 440) (Num 1) (Num 2) 2 = Num 3"
    by (simp add: overtone_step_def attackAndDecay_def SQUARE_def rtrunc_def)
  have square:
    "Instrument_waveformFunc [2, 0, - 1] 1 SQUARE (Num (4435 / 44100)) (Num 440) (Num 1) = Num 3"
    unfolding Instrument_waveformFunc_def u Let_def foldl_Cons foldl_Nil q0 q1 q2 by simp
  have "noteFreqs ''A'' = Some 7040"
    by (simp add: noteFreqs_def)
  then have "getFreq ''A'' 4 = Inr (Num (2 powi (4 - 8) * 7040))"
    by (rule getFreq_exact) simp_all
  then have a4: "getFreq ''A'' 4 = Inr (Num 440)"
    by (simp add: power_int_def power_divide)
  have t: "jdiv (Num (real 4435)) (Num 44100) = Num (4435 / 44100)"
    by simp
  have n: "\<not> (3::real) \<le> 1" by simp
  show ?thesis
    by (intro conjI) (rule r i sine square a4 t n)+
qed

text \<open>
  C1, amended. For every sequence of overtone weights that are not negative and whose
  sum is positive, and every wave function with values between -1 and 1, every sample
  of the waveform function of the instrument lies between -1 and 1, for every frequency
  that is not negative, every duration that is positive and every time from 0 to the
  duration. The same holds for the instrument with the log-normal envelope.
\<close>

theorem sample_bounded:
  assumes "\<forall>a \<in> set overtones. 0 \<le> a" and "0 < sum_list overtones"
    and "wave_bounded waveFunc" and "0 \<le> freq" and "0 < tmax" and "0 \<le> t" and "t \<le> tmax"
  shows "(\<exists>inst s. Instrument overtones (Some waveFunc) = Inr inst \<and>
            inst (Num t) (Num freq) (Num tmax) = Num s \<and> - 1 \<le> s \<and> s \<le> 1) \<and>
         (\<exists>inst s. SimpleInstrument overtones = Inr inst \<and>
            inst (Num t) (Num freq) = Num s \<and> - 1 \<le> s \<and> s \<le> 1)"
proof -
  have ne: "reduce_add overtones = Inr (sum_list overtones)"
    using assms(2) by (intro reduce_add_sum nonempty_of_pos_sum)
  have i: "Instrument overtones (Some waveFunc) =
           Inr (Instrument_waveformFunc overtones (sum_list overtones) waveFunc)"
    by (simp add: Instrument_def ne)
  have si: "SimpleInstrument overtones = Inr (SimpleInstrument_waveformFunc overtones (sum_list overtones))"
    by (simp add: SimpleInstrument_def ne)
  from Instrument_waveformFunc_bounded[OF assms] i
  have 1: "\<exists>inst s. Instrument overtones (Some waveFunc) = Inr inst \<and>
            inst (Num t) (Num freq) (Num tmax) = Num s \<and> - 1 \<le> s \<and> s \<le> 1"
    by auto
  from SimpleInstrument_waveformFunc_bounded[OF assms(1,2,6), of freq] obtain s where
    s: "SimpleInstrument_waveformFunc overtones (sum_list overtones) (Num t) (Num freq) = Num s"
       "\<bar>s\<bar> \<le> 1 / sqrt (2 * pi)"
    by blast
  from s(2) inv_sqrt_2pi_less_1 have "- 1 \<le> s" "s \<le> 1" by linarith+
  with s(1) si have 2: "\<exists>inst s. SimpleInstrument overtones = Inr inst \<and>
            inst (Num t) (Num freq) = Num s \<and> - 1 \<le> s \<and> s \<le> 1"
    by auto
  from 1 2 show ?thesis by (rule conjI)
qed

text \<open>
  C1, amended, at the weights 1, 0, 0, 1/4 with the sine wave: the note A of octave 4,
  a quarter note at 200 beats per minute, 10 milliseconds after its start.
\<close>

theorem sample_bounded_witness:
  "0 < sum_list [1, 0, 0, 1/4 :: real] \<and> (0::real) \<le> 440 \<and> (0::real) < 3/40 \<and>
   (0::real) \<le> 1/100 \<and> (1/100 :: real) \<le> 3/40 \<and>
   (\<exists>s. Instrument_waveformFunc [1, 0, 0, 1/4] (5/4) SINE (Num (1/100)) (Num 440) (Num (3/40)) = Num s \<and>
        - 1 \<le> s \<and> s \<le> 1)"
proof -
  have a: "\<forall>a \<in> set [1, 0, 0, 1/4 :: real]. 0 \<le> a" by simp
  have b: "0 < sum_list [1, 0, 0, 1/4 :: real]" by simp
  have c: "(0::real) \<le> 440" "(0::real) < 3/40" "(0::real) \<le> 1/100" "(1/100 :: real) \<le> 3/40"
    by simp_all
  have i: "Instrument [1, 0, 0, 1/4] (Some SINE) = Inr (Instrument_waveformFunc [1, 0, 0, 1/4] (5/4) SINE)"
    by (simp add: Instrument_def reduce_add_def)
  from sample_bounded[OF a b SINE_bounded c] i
  have "\<exists>s. Instrument_waveformFunc [1, 0, 0, 1/4] (5/4) SINE (Num (1/100)) (Num 440) (Num (3/40)) = Num s \<and>
        - 1 \<le> s \<and> s \<le> 1"
    by auto
  with b c show ?thesis by (intro conjI)
qed






section \<open>The synthesis of one note\<close>

lemma playFreq_fails_iff:
  "playFreq h w freq time = Inl e \<longleftrightarrow>
   createBuffer h 2 (jmul (Num (sampleRate h)) time) (Num (sampleRate h)) = Inl e"
  by (simp add: playFreq_def split: sum.splits)

text \<open>
  C6, as stated, fails: \<open>_playFreq\<close> does not check the duration. On a host that grants
  every request, a duration of 0 or of -1 second yields a buffer without frames, which
  is filled (with nothing) and submitted, and no error is raised. On a host that refuses
  a buffer without frames, the error is the one of the host.
\<close>

theorem playFreq_zero_duration_counterexample:
  "playFreq lenient_host sine_instrument (Num 440) (Num 0) = Inr [[], []] \<and>
   playFreq lenient_host sine_instrument (Num 440) (Num (- 1)) = Inr [[], []] \<and>
   playFreq lenient_host sine_instrument (Num 440) (Num 0) \<noteq> Inl InvalidDuration \<and>
   playFreq strict_host sine_instrument (Num 440) (Num 0) = Inl (HostError ''NotSupportedError'')"
  by (simp add: playFreq_def lenient_host_def strict_host_def upt_rec)

lemma lenient_host_no_frames:
  assumes "d \<le> 0"
  shows "playFreq lenient_host w freq (Num d) = Inr [[], []]"
proof -
  have "44100 * d \<le> 0" using assms by simp
  then have "\<lfloor>44100 * d\<rfloor> \<le> 0" by (simp add: floor_le_zero)
  then have "nat \<lfloor>44100 * d\<rfloor> = 0" by simp
  then show ?thesis
    by (simp add: playFreq_def lenient_host_def upt_rec)
qed

text \<open>
  C6, amended. For every duration, positive or not, \<open>_playFreq\<close> asks the host for a
  buffer of \<open>sampleRate * duration\<close> frames and raises an error exactly when the host
  raises it, with the error of the host; when the host returns a buffer, of whatever
  length, every channel of it is filled with the waveform and the buffer is submitted.
  On a host that grants every request, every duration that is not positive yields a
  submitted buffer without frames.
\<close>

theorem playFreq_no_duration_check:
  assumes "0 < sampleRate h"
  shows "(playFreq h w freq time = Inl e \<longleftrightarrow>
            createBuffer h 2 (jmul (Num (sampleRate h)) time) (Num (sampleRate h)) = Inl e) \<and>
         (createBuffer h 2 (jmul (Num (sampleRate h)) time) (Num (sampleRate h)) = Inr b \<longrightarrow>
            (\<exists>played. playFreq h w freq time = Inr played \<and>
               length played = numberOfChannels b \<and>
               (\<forall>channel \<in> set played.
                  channel = map (\<lambda>i. w (Num (real i / sampleRate h)) freq time) [0..<frames b]))) \<and>
         (d \<le> 0 \<longrightarrow> playFreq lenient_host w freq (Num d) = Inr [[], []])"
proof -
  have 1: "playFreq h w freq time = Inl e \<longleftrightarrow>
      createBuffer h 2 (jmul (Num (sampleRate h)) time) (Num (sampleRate h)) = Inl e"
    by (rule playFreq_fails_iff)
  have 2: "createBuffer h 2 (jmul (Num (sampleRate h)) time) (Num (sampleRate h)) = Inr b \<longrightarrow>
      (\<exists>played. playFreq h w freq time = Inr played \<and>
         length played = numberOfChannels b \<and>
         (\<forall>channel \<in> set played.
            channel = map (\<lambda>i. w (Num (real i / sampleRate h)) freq time) [0..<frames b]))"
    using assms by (auto simp: playFreq_def)
  have 3: "d \<le> 0 \<longrightarrow> playFreq lenient_host w freq (Num d) = Inr [[], []]"
    by (simp add: lenient_host_no_frames)
  show ?thesis
    by (intro conjI) (rule 1 2 3)+
qed

text \<open>C6, amended, at the duration 0 on the host that grants every request.\<close>

theorem playFreq_no_duration_check_witness:
  "0 < sampleRate lenient_host \<and>
   createBuffer lenient_host 2 (jmul (Num (sampleRate lenient_host)) (Num 0))
       (Num (sampleRate lenient_host))
     = Inr \<lparr>numberOfChannels = 2, frames = 0\<rparr> \<and>
   (0::real) \<le> 0 \<and>
   playFreq lenient_host sine_instrument (Num 440) (Num 0) = Inr [[], []]"
proof -
  have s: "0 < sampleRate lenient_host"
    by (simp add: lenient_host_def)
  have c: "createBuffer lenient_host 2 (jmul (Num (sampleRate lenient_host)) (Num 0))
       (Num (sampleRate lenient_host))
     = Inr \<lparr>numberOfChannels = 2, frames = 0\<rparr>"
    by (simp add: lenient_host_def)
  have z: "(0::real) \<le> 0" by simp
  from playFreq_no_duration_check[OF s, of sine_instrument "Num 440" "Num 0" _ _ 0] z
  have "playFreq lenient_host sine_instrument (Num 440) (Num 0) = Inr [[], []]"
    by blast
  with s c z show ?thesis by (intro conjI)
qed

section \<open>One entry of the sequence\<close>

lemma delay_of_Num: "bpm \<noteq> 0 \<Longrightarrow> delay_of bpm e = Num (1000 * (60 / bpm * entry_length e))"
  by (simp add: delay_of_def)

lemma playNote_Rest: "playNote h w (Rest len) bpm = Inr (None, delay_of bpm (Rest len))"
  by (simp add: playNote_def delay_of_def)

lemma playNote_Note_fails_iff:
  "playNote h w (Note nm oct len) bpm = Inl e \<longleftrightarrow> buffer_request h bpm len = Inl e"
  by (simp add: playNote_def getFreq_def buffer_request_def playFreq_def Let_def split: sum.splits)

lemma playNote_Inr:
  "playNote h w e bpm = Inr (submitted, delay) \<Longrightarrow>
   delay = delay_of bpm e \<and> (submitted = None \<longleftrightarrow> \<not> is_Note e)"
  by (cases e) (auto simp: playNote_def delay_of_def getFreq_def Let_def split: sum.splits)

lemma lenient_host_granted: "granted lenient_host bpm e"
  by (cases e) (simp_all add: lenient_host_def buffer_request_def)

lemma granted_playNote:
  "granted h bpm e \<Longrightarrow> playNote h w e bpm \<noteq> Inl err"
  by (cases e) (auto simp: playNote_Note_fails_iff playNote_Rest split: sum.splits)

section \<open>The chain of timers\<close>

lemma starts_append [simp]: "starts (xs @ ys) = starts xs @ starts ys"
  by (induction xs rule: starts.induct) simp_all
lemma submits_append [simp]: "submits (xs @ ys) = submits xs @ submits ys"
  by (induction xs rule: submits.induct) simp_all
lemma callbacks_append [simp]: "callbacks (xs @ ys) = callbacks xs @ callbacks ys"
  by (induction xs rule: callbacks.induct) simp_all
lemma delays_append [simp]: "delays (xs @ ys) = delays xs @ delays ys"
  by (induction xs rule: delays.induct) simp_all

lemma starts_entry_events: "starts (entry_events i now submitted delay) = [(i, now)]"
  by (cases submitted) (simp_all add: entry_events_def)

lemma submits_entry_events:
  "submits (entry_events i now submitted delay) = (if submitted = None then [] else [(i, now)])"
  by (cases submitted) (simp_all add: entry_events_def)

lemma callbacks_entry_events: "callbacks (entry_events i now submitted delay) = []"
  by (cases submitted) (simp_all add: entry_events_def)

lemma delays_entry_events: "delays (entry_events i now submitted delay) = [delay]"
  by (cases submitted) (simp_all add: entry_events_def)

lemma fires_after_nonneg: "0 \<le> fires_after d"
  by (cases d) simp_all

lemma fires_after_delay_of:
  "0 < bpm \<Longrightarrow> 0 \<le> entry_length e \<Longrightarrow> fires_after (delay_of bpm e) = 1000 * (60 / bpm * entry_length e)"
  by (simp add: delay_of_Num)

lemma offset_0: "offset notes bpm 0 = 0"
  by (simp add: offset_def)

lemma offset_Suc:
  "i < length notes \<Longrightarrow>
   offset notes bpm (Suc i) = offset notes bpm i + fires_after (delay_of bpm (notes ! i))"
  by (simp add: offset_def take_Suc_conv_app_nth)

lemma offset_mono:
  "i \<le> j \<Longrightarrow> j \<le> length notes \<Longrightarrow> offset notes bpm i \<le> offset notes bpm j"
proof (induction j)
  case 0
  then show ?case by simp
next
  case (Suc j)
  show ?case
  proof (cases "i = Suc j")
    case True
    then show ?thesis by simp
  next
    case False
    with Suc.prems have "i \<le> j" "j < length notes" by simp_all
    with Suc.IH have "offset notes bpm i \<le> offset notes bpm j" by simp
    also have "\<dots> \<le> offset notes bpm (Suc j)"
      using \<open>j < length notes\<close> by (simp add: offset_Suc fires_after_nonneg)
    finally show ?thesis .
  qed
qed

lemma offset_sum:
  assumes "0 < bpm" and "\<forall>e \<in> set notes. 0 \<le> entry_length e"
  shows "offset notes bpm i = 1000 * (\<Sum>e\<leftarrow>take i notes. 60 / bpm * entry_length e)"
proof -
  have "map (\<lambda>e. fires_after (delay_of bpm e)) (take i notes) =
        map (\<lambda>e. 1000 * (60 / bpm * entry_length e)) (take i notes)"
    using assms by (intro map_cong refl fires_after_delay_of) (auto dest: in_set_takeD)
  then have "offset notes bpm i = (\<Sum>e\<leftarrow>take i notes. 1000 * (60 / bpm * entry_length e))"
    by (simp only: offset_def)
  also have "\<dots> = 1000 * (\<Sum>e\<leftarrow>take i notes. 60 / bpm * entry_length e)"
    by (rule sum_list_const_mult)
  finally show ?thesis .
qed

text \<open>
  A rule for \<open>nextNote\<close>: a property of index, clock and trace that holds at the start and
  is kept by every pass holds when the chain ends, either at the callback or at the entry
  whose \<open>playNote\<close> raised the exception.
\<close>

lemma nextNote_rule:
  assumes "I i now tr" and "i \<le> length notes"
    and step: "\<And>i now tr submitted delay. I i now tr \<Longrightarrow> i < length notes \<Longrightarrow>
        playNote h w (notes ! i) bpm = Inr (submitted, delay) \<Longrightarrow>
        I (i + 1) (now + fires_after delay) (tr @ entry_events i now submitted delay)"
  shows "case nextNote h w notes bpm i now tr of
           (None, tr') \<Rightarrow> (\<exists>T tr0. tr' = tr0 @ [(T, Callback)] \<and> I (length notes) T tr0)
         | (Some e, tr') \<Rightarrow> (\<exists>j T. j < length notes \<and> I j T tr' \<and> playNote h w (notes ! j) bpm = Inl e)"
  using assms(1,2)
proof (induction "length notes - i" arbitrary: i now tr)
  case 0
  then have "i = length notes" by simp
  with 0 show ?case by (subst nextNote.simps) simp
next
  case (Suc k)
  then have lt: "i < length notes" by simp
  show ?case
  proof (cases "playNote h w (notes ! i) bpm")
    case (Inl e)
    with lt Suc.prems show ?thesis by (subst nextNote.simps) auto
  next
    case (Inr x)
    obtain submitted delay where x: "x = (submitted, delay)" by (cases x)
    have I': "I (i + 1) (now + fires_after delay) (tr @ entry_events i now submitted delay)"
      using step Suc.prems(1) lt Inr x by simp
    have k: "k = length notes - (i + 1)" using Suc.hyps(2) by simp
    have "i + 1 \<le> length notes" using lt by simp
    from Suc.hyps(1)[OF k I' this] lt Inr x show ?thesis
      by (subst nextNote.simps) (simp add: entry_events_def)
  qed
qed

lemma sched_inv_0: "sched_inv notes bpm 0 0 []"
  by (simp add: sched_inv_def offset_0)

lemma sched_inv_step:
  assumes "sched_inv notes bpm i now tr" and "i < length notes"
    and "playNote h w (notes ! i) bpm = Inr (submitted, delay)"
  shows "sched_inv notes bpm (Suc i) (now + fires_after delay) (tr @ entry_events i now submitted delay)"
proof -
  from playNote_Inr[OF assms(3)]
  have d: "delay = delay_of bpm (notes ! i)" and s: "submitted = None \<longleftrightarrow> \<not> is_Note (notes ! i)"
    by simp_all
  from assms(1) have now: "now = offset notes bpm i" by (simp add: sched_inv_def)
  show ?thesis
    using assms(1,2) d s
    by (simp add: sched_inv_def offset_Suc starts_entry_events submits_entry_events
        callbacks_entry_events delays_entry_events take_Suc_conv_app_nth)
qed

lemma playNotes_sched:
  "case playNotes h w notes bpm of
     (None, tr') \<Rightarrow> (\<exists>T tr0. tr' = tr0 @ [(T, Callback)] \<and> sched_inv notes bpm (length notes) T tr0)
   | (Some e, tr') \<Rightarrow> (\<exists>j T. j < length notes \<and> sched_inv notes bpm j T tr' \<and>
                          playNote h w (notes ! j) bpm = Inl e)"
  unfolding playNotes_def
  by (rule nextNote_rule[where I = "sched_inv notes bpm"]) (simp_all add: sched_inv_0 sched_inv_step)

lemma playNotes_granted:
  assumes "\<forall>e \<in> set notes. granted h bpm e"
  shows "\<exists>tr0. playNotes h w notes bpm = (None, tr0 @ [(offset notes bpm (length notes), Callback)]) \<and>
           sched_inv notes bpm (length notes) (offset notes bpm (length notes)) tr0"
proof (cases "playNotes h w notes bpm")
  case (Pair r tr')
  show ?thesis
  proof (cases r)
    case None
    with Pair playNotes_sched[where h = h and w = w and bpm = bpm and ?notes = "notes"] show ?thesis
      by (auto simp: sched_inv_def)
  next
    case (Some e)
    with Pair playNotes_sched[where h = h and w = w and bpm = bpm and ?notes = "notes"]
    obtain j where "j < length notes" "playNote h w (notes ! j) bpm = Inl e" by auto
    with assms granted_playNote[of h bpm "notes ! j" w e] show ?thesis by simp
  qed
qed

lemma playNotes_trace:
  "\<exists>m \<le> length notes.
     starts (snd (playNotes h w notes bpm)) = map (\<lambda>k. (k, offset notes bpm k)) [0..<m] \<and>
     submits (snd (playNotes h w notes bpm)) =
       filter (\<lambda>(k, t). is_Note (notes ! k)) (starts (snd (playNotes h w notes bpm))) \<and>
     (fst (playNotes h w notes bpm) = None \<longrightarrow> m = length notes)"
proof (cases "playNotes h w notes bpm")
  case (Pair r tr')
  show ?thesis
  proof (cases r)
    case None
    with Pair playNotes_sched[where h = h and w = w and bpm = bpm and ?notes = "notes"]
    obtain T tr0 where "tr' = tr0 @ [(T, Callback)]" "sched_inv notes bpm (length notes) T tr0"
      by auto
    with Pair show ?thesis
      by (intro exI[of _ "length notes"]) (simp add: sched_inv_def)
  next
    case (Some e)
    with Pair playNotes_sched[where h = h and w = w and bpm = bpm and ?notes = "notes"]
    obtain j T where "j < length notes" "sched_inv notes bpm j T tr'" by auto
    with Pair Some show ?thesis
      by (intro exI[of _ j]) (simp add: sched_inv_def)
  qed
qed

lemma schedule_sorted:
  assumes "0 < bpm" and "\<forall>e \<in> set notes. 0 < entry_length e" and "m \<le> length notes"
  shows "sorted_wrt (\<lambda>(i, s) (j, t). i < j \<and> s < t \<and> s + 1000 * (60 / bpm * entry_length (notes ! i)) \<le> t)
           (map (\<lambda>k. (k, offset notes bpm k)) [0..<m])"
proof -
  have "offset notes bpm i < offset notes bpm j \<and>
        offset notes bpm i + 1000 * (60 / bpm * entry_length (notes ! i)) \<le> offset notes bpm j"
    if "i < j" "j < m" for i j
  proof -
    from that assms(3) have i: "i < length notes" and j: "Suc i \<le> j" "j \<le> length notes" by simp_all
    from i assms(2) have pos: "0 < entry_length (notes ! i)" by simp
    have dur: "fires_after (delay_of bpm (notes ! i)) = 1000 * (60 / bpm * entry_length (notes ! i))"
      using assms(1) pos by (simp add: fires_after_delay_of)
    have "0 < 1000 * (60 / bpm * entry_length (notes ! i))"
      using assms(1) pos by simp
    moreover have "offset notes bpm i + 1000 * (60 / bpm * entry_length (notes ! i)) = offset notes bpm (Suc i)"
      using i dur by (simp add: offset_Suc)
    moreover have "offset notes bpm (Suc i) \<le> offset notes bpm j"
      using j by (rule offset_mono)
    ultimately show ?thesis by linarith
  qed
  then show ?thesis
    by (simp add: sorted_wrt_iff_nth_less)
qed

text \<open>
  What the chain does when the host grants the buffer of every note: it ends at the
  callback, after one timer for each entry.
\<close>

lemma playNotes_granted_run:
  assumes "0 < bpm" and "\<forall>e \<in> set notes. granted h bpm e"
  shows "\<exists>tr0. playNotes h w notes bpm = (None, tr0 @ [(offset notes bpm (length notes), Callback)]) \<and>
           callbacks tr0 = [] \<and>
           delays tr0 = map (\<lambda>e. Num (1000 * (60 / bpm * entry_length e))) notes"
proof -
  from playNotes_granted[OF assms(2), of w] obtain tr0 where
    run: "playNotes h w notes bpm = (None, tr0 @ [(offset notes bpm (length notes), Callback)])"
    and inv: "sched_inv notes bpm (length notes) (offset notes bpm (length notes)) tr0"
    by (elim exE conjE)
  from inv have cb: "callbacks tr0 = []" and dl: "delays tr0 = map (delay_of bpm) notes"
    by (simp_all add: sched_inv_def)
  have "map (delay_of bpm) notes = map (\<lambda>e. Num (1000 * (60 / bpm * entry_length e))) notes"
    using assms(1) by (simp add: delay_of_Num)
  with run cb dl show ?thesis by simp
qed

text \<open>
  A pass of \<open>playNote\<close> that returns has been granted its buffer, so a chain that runs
  to its end has been granted the buffer of every note.
\<close>

lemma playNote_Inr_granted:
  assumes "playNote h w e bpm = Inr x"
  shows "granted h bpm e"
proof (cases e)
  case (Rest len)
  then show ?thesis by simp
next
  case (Note nm oct len)
  show ?thesis
  proof (cases "buffer_request h bpm len")
    case (Inl err)
    then have "playNote h w (Note nm oct len) bpm = Inl err"
      by (simp add: playNote_Note_fails_iff)
    with assms Note show ?thesis by simp
  next
    case (Inr b)
    with Note show ?thesis by simp
  qed
qed

lemma playNotes_None_granted:
  assumes "fst (playNotes h w notes bpm) = None"
  shows "\<forall>e \<in> set notes. granted h bpm e"
proof -
  have "case nextNote h w notes bpm 0 0 [] of
           (None, tr') \<Rightarrow> (\<exists>T tr0. tr' = tr0 @ [(T, Callback)] \<and>
              (\<lambda>i (now::real) (tr::trace). \<forall>k < i. granted h bpm (notes ! k)) (length notes) T tr0)
         | (Some e, tr') \<Rightarrow> (\<exists>j T. j < length notes \<and>
              (\<lambda>i (now::real) (tr::trace). \<forall>k < i. granted h bpm (notes ! k)) j T tr' \<and>
              playNote h w (notes ! j) bpm = Inl e)"
  proof (rule nextNote_rule)
    show "\<forall>k < (0::nat). granted h bpm (notes ! k)" by simp
    show "0 \<le> length notes" by simp
  next
    fix i :: nat and now :: real and tr :: trace and submitted delay
    assume "\<forall>k < i. granted h bpm (notes ! k)" and "i < length notes"
      and "playNote h w (notes ! i) bpm = Inr (submitted, delay)"
    then show "\<forall>k < i + 1. granted h bpm (notes ! k)"
      by (auto simp: less_Suc_eq dest: playNote_Inr_granted)
  qed
  with assms have "\<forall>k < length notes. granted h bpm (notes ! k)"
    by (cases "nextNote h w notes bpm 0 0 []") (auto simp: playNotes_def)
  then show ?thesis by (auto simp: in_set_conv_nth)
qed

text \<open>
  The completion callback is called once when the chain runs to its end, and not at all
  when an exception ends it.
\<close>

lemma playNotes_callbacks:
  "callbacks (snd (playNotes h w notes bpm)) =
     (if fst (playNotes h w notes bpm) = None then [offset notes bpm (length notes)] else [])"
proof (cases "playNotes h w notes bpm")
  case (Pair r tr')
  show ?thesis
  proof (cases r)
    case None
    with Pair playNotes_sched[where h = h and w = w and bpm = bpm and ?notes = "notes"]
    obtain T tr0 where "tr' = tr0 @ [(T, Callback)]" "sched_inv notes bpm (length notes) T tr0"
      by auto
    with Pair None show ?thesis by (simp add: sched_inv_def)
  next
    case (Some e)
    with Pair playNotes_sched[where h = h and w = w and bpm = bpm and ?notes = "notes"]
    obtain j T where "sched_inv notes bpm j T tr'" by auto
    with Pair Some show ?thesis by (simp add: sched_inv_def)
  qed
qed

section \<open>The sequencer\<close>

text \<open>
  C2, as stated, fails: the buffer of a note is asked from the host before the timer of the
  note is armed, and when the host refuses it the exception leaves \<open>playNote\<close>, the chain
  ends and the completion callback is never called. A quarter note at 10000000 beats per
  minute lasts 1.5 microseconds, less than one frame at 44100 frames per second; the host
  that refuses a buffer without frames ends the chain at once, with no callback.
\<close>

theorem playNotes_completes_counterexample:
  "0 < (10000000::real) \<and>
   playNotes strict_host sine_instrument [Note ''A'' 4 (1/4)] 10000000
     = (Some (HostError ''NotSupportedError''), []) \<and>
   callbacks (snd (playNotes strict_host sine_instrument [Note ''A'' 4 (1/4)] 10000000)) = []"
proof -
  have "buffer_request strict_host 10000000 (1/4) = Inl (HostError ''NotSupportedError'')"
    by (simp add: buffer_request_def strict_host_def)
  then have "playNote strict_host sine_instrument (Note ''A'' 4 (1/4)) 10000000
      = Inl (HostError ''NotSupportedError'')"
    by (simp add: playNote_Note_fails_iff)
  then have "playNotes strict_host sine_instrument [Note ''A'' 4 (1/4)] 10000000
     = (Some (HostError ''NotSupportedError''), [])"
    by (simp add: playNotes_def nextNote.simps)
  then show ?thesis by simp
qed

text \<open>
  C2, amended. For every finite list of entries, every positive number of beats per minute
  and every host, \<open>playNotes\<close> calls the completion callback at most once, and exactly once
  if and only if the host grants the buffer of every note of the list. In that case the
  chain runs to its end, the callback is the last event, one timer is armed for each entry
  with the delay of \<open>60 / bpm\<close> times the length of the entry (in milliseconds), and for
  lengths that are not negative the callback is called when the sum of these delays has
  elapsed.
\<close>

theorem playNotes_completes:
  assumes "0 < bpm"
  shows "length (callbacks (snd (playNotes h w notes bpm))) \<le> 1 \<and>
         (length (callbacks (snd (playNotes h w notes bpm))) = 1 \<longleftrightarrow>
            (\<forall>e \<in> set notes. granted h bpm e)) \<and>
         ((\<forall>e \<in> set notes. granted h bpm e) \<longrightarrow>
            fst (playNotes h w notes bpm) = None \<and>
            length (callbacks (snd (playNotes h w notes bpm))) = 1 \<and>
            snd (last (snd (playNotes h w notes bpm))) = Callback \<and>
            delays (snd (playNotes h w notes bpm)) =
              map (\<lambda>e. Num (1000 * (60 / bpm * entry_length e))) notes \<and>
            ((\<forall>e \<in> set notes. 0 \<le> entry_length e) \<longrightarrow>
               callbacks (snd (playNotes h w notes bpm)) =
                 [1000 * (\<Sum>e\<leftarrow>notes. 60 / bpm * entry_length e)]))"
proof -
  have 1: "length (callbacks (snd (playNotes h w notes bpm))) \<le> 1"
    by (simp add: playNotes_callbacks)
  have 3: "fst (playNotes h w notes bpm) = None \<and>
            length (callbacks (snd (playNotes h w notes bpm))) = 1 \<and>
            snd (last (snd (playNotes h w notes bpm))) = Callback \<and>
            delays (snd (playNotes h w notes bpm)) =
              map (\<lambda>e. Num (1000 * (60 / bpm * entry_length e))) notes \<and>
            ((\<forall>e \<in> set notes. 0 \<le> entry_length e) \<longrightarrow>
               callbacks (snd (playNotes h w notes bpm)) =
                 [1000 * (\<Sum>e\<leftarrow>notes. 60 / bpm * entry_length e)])"
    if g: "\<forall>e \<in> set notes. granted h bpm e"
  proof -
    from playNotes_granted_run[OF assms g, of w] obtain tr0 where
      run: "playNotes h w notes bpm = (None, tr0 @ [(offset notes bpm (length notes), Callback)])"
      and cb: "callbacks tr0 = []"
      and dl: "delays tr0 = map (\<lambda>e. Num (1000 * (60 / bpm * entry_length e))) notes"
      by (elim exE conjE)
    have "(\<forall>e \<in> set notes. 0 \<le> entry_length e) \<longrightarrow>
        offset notes bpm (length notes) = 1000 * (\<Sum>e\<leftarrow>notes. 60 / bpm * entry_length e)"
      using offset_sum[OF assms, of "notes" "length notes"] by simp
    with run cb dl show ?thesis by simp
  qed
  have 2: "length (callbacks (snd (playNotes h w notes bpm))) = 1 \<longleftrightarrow>
            (\<forall>e \<in> set notes. granted h bpm e)"
  proof
    assume "length (callbacks (snd (playNotes h w notes bpm))) = 1"
    then have "fst (playNotes h w notes bpm) = None"
      by (simp add: playNotes_callbacks split: if_splits)
    then show "\<forall>e \<in> set notes. granted h bpm e"
      by (rule playNotes_None_granted)
  next
    assume "\<forall>e \<in> set notes. granted h bpm e"
    with 3 show "length (callbacks (snd (playNotes h w notes bpm))) = 1" by simp
  qed
  have g3: "(\<forall>e \<in> set notes. granted h bpm e) \<longrightarrow>
            fst (playNotes h w notes bpm) = None \<and>
            length (callbacks (snd (playNotes h w notes bpm))) = 1 \<and>
            snd (last (snd (playNotes h w notes bpm))) = Callback \<and>
            delays (snd (playNotes h w notes bpm)) =
              map (\<lambda>e. Num (1000 * (60 / bpm * entry_length e))) notes \<and>
            ((\<forall>e \<in> set notes. 0 \<le> entry_length e) \<longrightarrow>
               callbacks (snd (playNotes h w notes bpm)) =
                 [1000 * (\<Sum>e\<leftarrow>notes. 60 / bpm * entry_length e)])"
    using 3 by (intro impI)
  show ?thesis
    by (intro conjI) (rule 1 2 g3)+
qed

text \<open>
  C2, amended, at a quarter note, a quarter rest and a quarter note, at 120 beats per minute,
  on the host that grants every request: the callback is called once, 375 milliseconds
  after the start.
\<close>

theorem playNotes_completes_witness:
  "0 < (120::real) \<and>
   granted lenient_host 120 (Note ''A'' 4 (1/4)) \<and> granted lenient_host 120 (Rest (1/4)) \<and>
   0 \<le> entry_length (Note ''A'' 4 (1/4)) \<and> 0 \<le> entry_length (Rest (1/4)) \<and>
   fst (playNotes lenient_host sine_instrument
          [Note ''A'' 4 (1/4), Rest (1/4), Note ''A'' 4 (1/4)] 120) = None \<and>
   callbacks (snd (playNotes lenient_host sine_instrument
          [Note ''A'' 4 (1/4), Rest (1/4), Note ''A'' 4 (1/4)] 120)) = [375]"
proof -
  have g1: "granted lenient_host 120 (Note ''A'' 4 (1/4))" "granted lenient_host 120 (Rest (1/4))"
    by (simp_all add: lenient_host_def buffer_request_def)
  then have g: "\<forall>e \<in> set [Note ''A'' 4 (1/4), Rest (1/4), Note ''A'' 4 (1/4)].
      granted lenient_host 120 e"
    by simp
  have b: "0 < (120::real)" by simp
  have "fst (playNotes lenient_host sine_instrument
          [Note ''A'' 4 (1/4), Rest (1/4), Note ''A'' 4 (1/4)] 120) = None \<and>
    callbacks (snd (playNotes lenient_host sine_instrument
          [Note ''A'' 4 (1/4), Rest (1/4), Note ''A'' 4 (1/4)] 120)) = [375]"
    using playNotes_completes[OF b, of lenient_host sine_instrument
        "[Note ''A'' 4 (1/4), Rest (1/4), Note ''A'' 4 (1/4)]"] g
    by simp
  with g1 b show ?thesis by simp
qed

text \<open>
  C3. For a list of entries of positive length and a positive number of beats per
  minute, the entries are started in the order of the list, entry \<open>i\<close> when the durations
  of the entries before it have elapsed: the sequence of pairs of entry index and start
  time is given by the list and the tempo alone, both components increase strictly, and
  a later entry starts no sooner than an earlier one plus its duration. The audio of
  the notes is submitted at these very times, in the same order. On a host that grants
  the buffer of every note, every entry of the list is started.
\<close>

theorem playNotes_in_order:
  assumes "0 < bpm" and "\<forall>e \<in> set notes. 0 < entry_length e"
  shows "let tr = snd (playNotes h w notes bpm) in
     starts tr = map (\<lambda>i. (i, 1000 * (\<Sum>e\<leftarrow>take i notes. 60 / bpm * entry_length e))) [0..<length (starts tr)] \<and>
     length (starts tr) \<le> length notes \<and>
     ((\<forall>e \<in> set notes. granted h bpm e) \<longrightarrow> length (starts tr) = length notes) \<and>
     submits tr = filter (\<lambda>(i, t). is_Note (notes ! i)) (starts tr) \<and>
     sorted_wrt (\<lambda>(i, s) (j, t). i < j \<and> s < t \<and> s + 1000 * (60 / bpm * entry_length (notes ! i)) \<le> t) (starts tr) \<and>
     sorted_wrt (\<lambda>(i, s) (j, t). i < j \<and> s < t \<and> s + 1000 * (60 / bpm * entry_length (notes ! i)) \<le> t) (submits tr)"
proof -
  define tr where "tr = snd (playNotes h w notes bpm)"
  have "\<exists>m. m \<le> length notes \<and>
     starts tr = map (\<lambda>k. (k, offset notes bpm k)) [0..<m] \<and>
     submits tr = filter (\<lambda>(k, t). is_Note (notes ! k)) (starts tr) \<and>
     (fst (playNotes h w notes bpm) = None \<longrightarrow> m = length notes)"
    unfolding tr_def
    using playNotes_trace[where ?notes = "notes" and h = h and w = w and bpm = bpm]
    by (simp only: Bex_def)
  then obtain m where m: "m \<le> length notes"
    and st: "starts tr = map (\<lambda>k. (k, offset notes bpm k)) [0..<m]"
    and su: "submits tr = filter (\<lambda>(k, t). is_Note (notes ! k)) (starts tr)"
    and fin: "fst (playNotes h w notes bpm) = None \<longrightarrow> m = length notes"
    by (elim exE conjE)
  have len: "length (starts tr) = m" by (simp add: st)
  have nonneg: "\<forall>e \<in> set notes. 0 \<le> entry_length e"
    using assms(2) by (auto intro: less_imp_le)
  have 1: "starts tr = map (\<lambda>i. (i, 1000 * (\<Sum>e\<leftarrow>take i notes. 60 / bpm * entry_length e))) [0..<length (starts tr)]"
    unfolding len by (simp add: st offset_sum[OF assms(1) nonneg])
  have 3: "(\<forall>e \<in> set notes. granted h bpm e) \<longrightarrow> length (starts tr) = length notes"
  proof
    assume "\<forall>e \<in> set notes. granted h bpm e"
    from playNotes_granted[OF this, of w] have "fst (playNotes h w notes bpm) = None" by auto
    with fin len show "length (starts tr) = length notes" by simp
  qed
  have 5: "sorted_wrt (\<lambda>(i, s) (j, t). i < j \<and> s < t \<and> s + 1000 * (60 / bpm * entry_length (notes ! i)) \<le> t) (starts tr)"
    unfolding st by (rule schedule_sorted[OF assms m])
  have 6: "sorted_wrt (\<lambda>(i, s) (j, t). i < j \<and> s < t \<and> s + 1000 * (60 / bpm * entry_length (notes ! i)) \<le> t) (submits tr)"
    unfolding su by (rule sorted_wrt_filter[OF 5])
  have 2: "length (starts tr) \<le> length notes"
    using m len by simp
  show ?thesis
    unfolding tr_def[symmetric] Let_def
    by (intro conjI) (rule 1 2 3 su 5 6)+
qed

text \<open>
  C3 at a quarter note, a quarter rest and a quarter note, at 120 beats per minute: the
  entries start at 0, 125 and 250 milliseconds, the two notes are submitted at 0 and 250.
\<close>

theorem playNotes_in_order_witness:
  "0 < (120::real) \<and> 0 < entry_length (Note ''A'' 4 (1/4)) \<and> 0 < entry_length (Rest (1/4)) \<and>
   granted lenient_host 120 (Note ''A'' 4 (1/4)) \<and> granted lenient_host 120 (Rest (1/4)) \<and>
   starts (snd (playNotes lenient_host sine_instrument [Note ''A'' 4 (1/4), Rest (1/4), Note ''A'' 4 (1/4)] 120))
     = [(0, 0), (1, 125), (2, 250)] \<and>
   submits (snd (playNotes lenient_host sine_instrument [Note ''A'' 4 (1/4), Rest (1/4), Note ''A'' 4 (1/4)] 120))
     = [(0, 0), (2, 250)]"
proof -
  define tr where
    "tr = snd (playNotes lenient_host sine_instrument [Note ''A'' 4 (1/4), Rest (1/4), Note ''A'' 4 (1/4)] 120)"
  have b: "0 < (120::real)" by simp
  have p: "\<forall>e \<in> set [Note ''A'' 4 (1/4), Rest (1/4), Note ''A'' 4 (1/4)]. 0 < entry_length e"
    by simp
  have g1: "granted lenient_host 120 (Note ''A'' 4 (1/4))" "granted lenient_host 120 (Rest (1/4))"
    by (simp_all add: lenient_host_def buffer_request_def)
  then have g: "\<forall>e \<in> set [Note ''A'' 4 (1/4), Rest (1/4), Note ''A'' 4 (1/4)]. granted lenient_host 120 e"
    by simp
  note T = playNotes_in_order[OF b p, of lenient_host sine_instrument, unfolded Let_def, folded tr_def]
  from T g have len: "length (starts tr) = 3" by simp
  from T have "starts tr = map (\<lambda>i. (i, 1000 * (\<Sum>e\<leftarrow>take i [Note ''A'' 4 (1/4), Rest (1/4), Note ''A'' 4 (1/4)]. 60 / 120 * entry_length e))) [0..<length (starts tr)]"
    by (rule conjunct1)
  then have st: "starts tr = [(0, 0), (1, 125), (2, 250)]"
    unfolding len by (simp add: upt_rec numeral_2_eq_2)
  from T have "submits tr = filter (\<lambda>(i, t). is_Note ([Note ''A'' 4 (1/4), Rest (1/4), Note ''A'' 4 (1/4)] ! i)) (starts tr)"
    by blast
  then have su: "submits tr = [(0, 0), (2, 250)]"
    unfolding st by simp
  from b g1 st su show ?thesis
    unfolding tr_def by simp
qed

text \<open>
  C7. A rest is neither rendered nor submitted: \<open>playNote\<close> submits nothing for it and
  arms the timer with \<open>60 / bpm\<close> times its length, the very delay it arms for a note of
  the same length; and every audio submission in a trace of \<open>playNotes\<close> belongs to an entry
  of the list that is a note.
\<close>

theorem playNote_Rest_timer:
  assumes "bpm \<noteq> 0"
  shows "playNote h w (Rest len) bpm = Inr (None, Num (1000 * (60 / bpm * len))) \<and>
         (\<forall>submitted delay. playNote h w (Note nm oct len) bpm = Inr (submitted, delay) \<longrightarrow>
            submitted \<noteq> None \<and> delay = Num (1000 * (60 / bpm * len))) \<and>
         (\<forall>i t. (i, t) \<in> set (submits (snd (playNotes h w notes bpm))) \<longrightarrow>
            i < length notes \<and> is_Note (notes ! i))"
proof -
  have 1: "playNote h w (Rest len) bpm = Inr (None, Num (1000 * (60 / bpm * len)))"
    using assms by (simp add: playNote_Rest delay_of_Num)
  have 2: "submitted \<noteq> None \<and> delay = Num (1000 * (60 / bpm * len))"
    if "playNote h w (Note nm oct len) bpm = Inr (submitted, delay)" for submitted delay
    using playNote_Inr[OF that] assms by (simp add: delay_of_Num)
  have 3: "i < length notes \<and> is_Note (notes ! i)"
    if "(i, t) \<in> set (submits (snd (playNotes h w notes bpm)))" for i t
  proof -
    have "\<exists>m. m \<le> length notes \<and>
       starts (snd (playNotes h w notes bpm)) = map (\<lambda>k. (k, offset notes bpm k)) [0..<m] \<and>
       submits (snd (playNotes h w notes bpm)) =
         filter (\<lambda>(k, t). is_Note (notes ! k)) (starts (snd (playNotes h w notes bpm)))"
      using playNotes_trace[where ?notes = "notes" and h = h and w = w and bpm = bpm] by blast
    then obtain m where m: "m \<le> length notes"
      and st: "starts (snd (playNotes h w notes bpm)) = map (\<lambda>k. (k, offset notes bpm k)) [0..<m]"
      and su: "submits (snd (playNotes h w notes bpm)) =
         filter (\<lambda>(k, t). is_Note (notes ! k)) (starts (snd (playNotes h w notes bpm)))"
      by (elim exE conjE)
    from that have "(i, t) \<in> set (filter (\<lambda>(k, t). is_Note (notes ! k)) (map (\<lambda>k. (k, offset notes bpm k)) [0..<m]))"
      by (simp only: su st)
    with m show ?thesis by auto
  qed
  from 1 2 3 show ?thesis by blast
qed

text \<open>C7 at a quarter rest and a quarter note at 120 beats per minute: 125 milliseconds each.\<close>

theorem playNote_Rest_timer_witness:
  "(120::real) \<noteq> 0 \<and>
   playNote lenient_host sine_instrument (Rest (1/4)) 120 = Inr (None, Num 125) \<and>
   (\<exists>played. playNote lenient_host sine_instrument (Note ''A'' 4 (1/4)) 120 = Inr (Some played, Num 125))"
proof -
  have b: "(120::real) \<noteq> 0" by simp
  have "\<exists>x. playNote lenient_host sine_instrument (Note ''A'' 4 (1/4)) 120 = Inr x"
    using granted_playNote[of lenient_host 120 "Note ''A'' 4 (1/4)" sine_instrument]
    by (cases "playNote lenient_host sine_instrument (Note ''A'' 4 (1/4)) 120")
       (simp_all add: lenient_host_def buffer_request_def)
  then obtain submitted delay where
    p: "playNote lenient_host sine_instrument (Note ''A'' 4 (1/4)) 120 = Inr (submitted, delay)"
    by auto
  from playNote_Rest_timer[OF b, of lenient_host sine_instrument "1/4" "''A''" 4 "[]"] p
  have "playNote lenient_host sine_instrument (Rest (1/4)) 120 = Inr (None, Num 125)"
    and "submitted \<noteq> None \<and> delay = Num 125"
    by simp_all
  with p b show ?thesis by auto
qed

text \<open>
  C5, as stated, fails: for the name H, which is not in the table, \<open>getFreq\<close> raises no
  error; it returns \<open>NaN\<close>.
\<close>

theorem getFreq_unknown_counterexample:
  "getFreq ''H'' 4 = Inr NaN \<and> getFreq ''H'' 4 \<noteq> Inl UnknownPitchName"
proof -
  have "''H'' \<notin> dom noteFreqs"
    by (simp add: noteFreqs_def dom_map_of_conv_image_fst)
  then have "getFreq ''H'' 4 = Inr NaN"
    by (rule getFreq_unknown_value)
  then show ?thesis by simp
qed

text \<open>
  C5, amended. For every pitch name that is not one of the names of the table,
  \<open>getFreq\<close> raises no error and returns \<open>NaN\<close>. A note with such a name does not break
  the chain of timers: \<open>playNote\<close> fails for it exactly when the host refuses its buffer,
  whatever the name, and a sequence that holds such a note runs to the completion
  callback, with one timer for each entry, on a host that grants the buffer of every
  note.
\<close>

theorem getFreq_unknown:
  assumes "nm \<notin> dom noteFreqs" and "0 < bpm"
  shows "getFreq nm oct = Inr NaN \<and>
         (playNote h w (Note nm oct len) bpm = Inl e \<longleftrightarrow> buffer_request h bpm len = Inl e) \<and>
         (Note nm oct len \<in> set notes \<and> (\<forall>x \<in> set notes. granted h bpm x) \<longrightarrow>
            fst (playNotes h w notes bpm) = None \<and>
            delays (snd (playNotes h w notes bpm)) =
              map (\<lambda>x. Num (1000 * (60 / bpm * entry_length x))) notes \<and>
            length (callbacks (snd (playNotes h w notes bpm))) = 1)"
proof -
  have 1: "getFreq nm oct = Inr NaN"
    using assms(1) by (rule getFreq_unknown_value)
  have 2: "playNote h w (Note nm oct len) bpm = Inl e \<longleftrightarrow> buffer_request h bpm len = Inl e"
    by (rule playNote_Note_fails_iff)
  have 3: "fst (playNotes h w notes bpm) = None \<and>
           delays (snd (playNotes h w notes bpm)) =
             map (\<lambda>x. Num (1000 * (60 / bpm * entry_length x))) notes \<and>
           length (callbacks (snd (playNotes h w notes bpm))) = 1"
    if g: "\<forall>x \<in> set notes. granted h bpm x"
  proof -
    from playNotes_granted_run[OF assms(2) g, of w] obtain tr0 where
      "playNotes h w notes bpm = (None, tr0 @ [(offset notes bpm (length notes), Callback)])"
      "callbacks tr0 = []"
      "delays tr0 = map (\<lambda>e. Num (1000 * (60 / bpm * entry_length e))) notes"
      by (elim exE conjE)
    then show ?thesis by simp
  qed
  from 1 2 3 show ?thesis by blast
qed

text \<open>C5, amended, at the name H between two notes A, at 120 beats per minute.\<close>

theorem getFreq_unknown_witness:
  "''H'' \<notin> dom noteFreqs \<and> getFreq ''H'' 4 = Inr NaN \<and>
   0 < (120::real) \<and>
   Note ''H'' 4 (1/4) \<in> set [Note ''A'' 4 (1/4), Note ''H'' 4 (1/4), Note ''A'' 4 (1/4)] \<and>
   granted lenient_host 120 (Note ''A'' 4 (1/4)) \<and> granted lenient_host 120 (Note ''H'' 4 (1/4)) \<and>
   fst (playNotes lenient_host sine_instrument
          [Note ''A'' 4 (1/4), Note ''H'' 4 (1/4), Note ''A'' 4 (1/4)] 120) = None \<and>
   delays (snd (playNotes lenient_host sine_instrument
          [Note ''A'' 4 (1/4), Note ''H'' 4 (1/4), Note ''A'' 4 (1/4)] 120))
     = [Num 125, Num 125, Num 125]"
proof -
  have d: "''H'' \<notin> dom noteFreqs"
    by (simp add: noteFreqs_def dom_map_of_conv_image_fst)
  have g1: "granted lenient_host 120 (Note ''A'' 4 (1/4))"
    "granted lenient_host 120 (Note ''H'' 4 (1/4))"
    by (simp_all add: lenient_host_def buffer_request_def)
  then have g: "\<forall>x \<in> set [Note ''A'' 4 (1/4), Note ''H'' 4 (1/4), Note ''A'' 4 (1/4)].
      granted lenient_host 120 x"
    by simp
  have m: "Note ''H'' 4 (1/4) \<in> set [Note ''A'' 4 (1/4), Note ''H'' 4 (1/4), Note ''A'' 4 (1/4)]"
    by simp
  have b: "0 < (120::real)" by simp
  from getFreq_unknown[OF d b, of 4 lenient_host sine_instrument "1/4" _
      "[Note ''A'' 4 (1/4), Note ''H'' 4 (1/4), Note ''A'' 4 (1/4)]"] m g
  have "getFreq ''H'' 4 = Inr NaN \<and>
    fst (playNotes lenient_host sine_instrument
          [Note ''A'' 4 (1/4), Note ''H'' 4 (1/4), Note ''A'' 4 (1/4)] 120) = None \<and>
    delays (snd (playNotes lenient_host sine_instrument
          [Note ''A'' 4 (1/4), Note ''H'' 4 (1/4), Note ''A'' 4 (1/4)] 120))
     = map (\<lambda>x. Num (1000 * (60 / 120 * entry_length x)))
         [Note ''A'' 4 (1/4), Note ''H'' 4 (1/4), Note ''A'' 4 (1/4)]"
    by blast
  then have "getFreq ''H'' 4 = Inr NaN \<and>
    fst (playNotes lenient_host sine_instrument
          [Note ''A'' 4 (1/4), Note ''H'' 4 (1/4), Note ''A'' 4 (1/4)] 120) = None \<and>
    delays (snd (playNotes lenient_host sine_instrument
          [Note ''A'' 4 (1/4), Note ''H'' 4 (1/4), Note ''A'' 4 (1/4)] 120))
     = [Num 125, Num 125, Num 125]"
    by simp
  with d b m g1 show ?thesis by (intro conjI) simp_all
qed

end
